theory Spec2Isabelle
  imports Main "HOL-Library.Word"
begin

text \<open>
  A model of \<^verbatim>\<open>packet.go\<close> of gopacket: the packet with its builder methods, the eager
  and the lazy decoding engine, the construction of a packet with its buffer copied or
  shared, and the packet source. Byte slices live in an explicit store; decoders are
  trees of builder calls; recursion that the code does not bound is bounded by fuel.
\<close>

section \<open>Memory: byte slices over backing arrays\<close>

text \<open>
  A Go \<^verbatim>\<open>[]byte\<close> is a slice header: a pointer into a backing array, and a length.
  The store is the list of the backing arrays allocated so far; the address of an array
  is its index. Two slices alias when they name the same array.
\<close>

type_synonym byte = "8 word"

type_synonym heap = "byte list list"

record slice =
  arr :: nat
  off :: nat
  len :: nat

definition nil_slice :: slice where
  "nil_slice = \<lparr>arr = 0, off = 0, len = 0\<rparr>"

definition heap_at :: "heap \<Rightarrow> nat \<Rightarrow> byte list" where
  "heap_at h a = (if a < length h then h ! a else [])"

definition read_slice :: "heap \<Rightarrow> slice \<Rightarrow> byte list" where
  "read_slice h s = take (len s) (drop (off s) (heap_at h (arr s)))"

text \<open>\<^verbatim>\<open>make([]byte, n)\<close>: a fresh zeroed array, and the slice of all of it.\<close>

definition make_bytes :: "heap \<Rightarrow> nat \<Rightarrow> heap \<times> slice" where
  "make_bytes h n = (h @ [replicate n 0], \<lparr>arr = length h, off = 0, len = n\<rparr>)"

text \<open>\<^verbatim>\<open>copy(dst, src)\<close> copies \<open>min (len dst) (len src)\<close> bytes.\<close>

definition write_at :: "byte list \<Rightarrow> nat \<Rightarrow> byte list \<Rightarrow> byte list" where
  "write_at a i bs = take i a @ bs @ drop (i + length bs) a"

definition copy :: "heap \<Rightarrow> slice \<Rightarrow> slice \<Rightarrow> heap" where
  "copy h dst src =
     (let n = min (len dst) (len src);
          bs = take n (read_slice h src)
      in if arr dst < length h
         then h[arr dst := write_at (h ! arr dst) (off dst) bs]
         else h)"

text \<open>
  \<^verbatim>\<open>s[i] = b\<close>, the caller's way of mutating its bytes: an index out of range panics
  (\<open>None\<close>).
\<close>

definition slice_store :: "heap \<Rightarrow> slice \<Rightarrow> nat \<Rightarrow> byte \<Rightarrow> heap option" where
  "slice_store h s i b =
     (if i < len s \<and> arr s < length h \<and> off s + i < length (h ! arr s)
      then Some (h[arr s := (h ! arr s)[off s + i := b]])
      else None)"

section \<open>Data model\<close>

type_synonym error = string

type_synonym LayerType = nat

text \<open>A \<^verbatim>\<open>Decoder\<close> value is named by a number; the nil decoder is \<open>None\<close>.\<close>

type_synonym decoder = nat

record CaptureInfo =
  Populated :: bool
  Timestamp :: int
  CaptureLength :: int
  Length :: int

definition zero_CaptureInfo :: CaptureInfo where
  "zero_CaptureInfo = \<lparr>Populated = False, Timestamp = 0, CaptureLength = 0, Length = 0\<rparr>"

text \<open>
  A layer is either some protocol layer, given by what its methods return (its type,
  its \<^verbatim>\<open>String()\<close> and its \<^verbatim>\<open>LayerPayload()\<close>), or the \<^verbatim>\<open>DecodeFailure\<close> that
  \<^verbatim>\<open>recoverDecodeError\<close> builds, with its two fields \<^verbatim>\<open>err\<close> and \<^verbatim>\<open>data\<close>.
\<close>

datatype layer =
    ProtoLayer (proto_type: LayerType) (proto_string: string) (proto_payload: slice)
  | DecodeFailure (err: string) (failure_data: slice)

text \<open>
  The methods of \<^verbatim>\<open>DecodeFailure\<close> and the decoders themselves are not part of
  \<^verbatim>\<open>packet.go\<close>: they are parameters of the model. \<open>Decode W d h s\<close> is what decoder
  \<open>d\<close> does when it is handed the slice \<open>s\<close> in the store \<open>h\<close>.
\<close>

datatype outcome = Ret "error option" | Panicked string | OutOfFuel

text \<open>
  What a decoder does with its \<^verbatim>\<open>PacketBuilder\<close>: a tree of calls, ending in a return
  or a panic. \<^verbatim>\<open>NextDecoder\<close> returns an error value to the decoder, which goes on
  from it. The role setters take an interface value, which may be nil.
\<close>

datatype prog =
    Return "error option"
  | Panic string
  | CallAddLayer layer prog
  | CallSetLinkLayer "layer option" prog
  | CallSetNetworkLayer "layer option" prog
  | CallSetTransportLayer "layer option" prog
  | CallSetApplicationLayer "layer option" prog
  | CallSetErrorLayer "layer option" prog
  | CallNextDecoder "decoder option" "error option \<Rightarrow> prog"

record world =
  Decode :: "decoder \<Rightarrow> heap \<Rightarrow> slice \<Rightarrow> prog"
  DecodeFailure_LayerType :: LayerType
  DecodeFailure_LayerPayload :: "string \<Rightarrow> slice \<Rightarrow> slice"

definition LayerType :: "world \<Rightarrow> layer \<Rightarrow> LayerType" where
  "LayerType W l =
     (case l of ProtoLayer t _ _ \<Rightarrow> t | DecodeFailure _ _ \<Rightarrow> DecodeFailure_LayerType W)"

definition LayerPayload :: "world \<Rightarrow> layer \<Rightarrow> slice" where
  "LayerPayload W l =
     (case l of ProtoLayer _ _ pl \<Rightarrow> pl
      | DecodeFailure e d \<Rightarrow> DecodeFailure_LayerPayload W e d)"

text \<open>
  The struct \<^verbatim>\<open>packet\<close>. The field \<^verbatim>\<open>initialLayers\<close> is only the first backing array of
  \<^verbatim>\<open>layers\<close> and is left out. The field \<^verbatim>\<open>last\<close> is \<open>last_layer\<close> here.
\<close>

record packet =
  data :: slice
  layers :: "layer list"
  last_layer :: "layer option"
  capInfo :: CaptureInfo
  link :: "layer option"
  network :: "layer option"
  transport :: "layer option"
  application :: "layer option"
  failure :: "layer option"

record lazyPacket = packet +
  "next" :: "decoder option"

record DecodeOptions =
  Lazy :: bool
  NoCopy :: bool

section \<open>The builder methods of \<^verbatim>\<open>packet\<close>\<close>

definition SetLinkLayer :: "layer option \<Rightarrow> 'a packet_scheme \<Rightarrow> 'a packet_scheme" where
  "SetLinkLayer l p = (if link p = None then p\<lparr>link := l\<rparr> else p)"

definition SetNetworkLayer :: "layer option \<Rightarrow> 'a packet_scheme \<Rightarrow> 'a packet_scheme" where
  "SetNetworkLayer l p = (if network p = None then p\<lparr>network := l\<rparr> else p)"

definition SetTransportLayer :: "layer option \<Rightarrow> 'a packet_scheme \<Rightarrow> 'a packet_scheme" where
  "SetTransportLayer l p = (if transport p = None then p\<lparr>transport := l\<rparr> else p)"

definition SetApplicationLayer :: "layer option \<Rightarrow> 'a packet_scheme \<Rightarrow> 'a packet_scheme" where
  "SetApplicationLayer l p = (if application p = None then p\<lparr>application := l\<rparr> else p)"

definition SetErrorLayer :: "layer option \<Rightarrow> 'a packet_scheme \<Rightarrow> 'a packet_scheme" where
  "SetErrorLayer l p = (if failure p = None then p\<lparr>failure := l\<rparr> else p)"

definition AddLayer :: "layer \<Rightarrow> 'a packet_scheme \<Rightarrow> 'a packet_scheme" where
  "AddLayer l p = p\<lparr>layers := layers p @ [l], last_layer := Some l\<rparr>"

definition Data :: "'a packet_scheme \<Rightarrow> slice" where
  "Data p = data p"

text \<open>
  The payload a decode step works on: the whole buffer before the first layer, the
  payload of the last layer after it.
\<close>

definition pending_payload :: "world \<Rightarrow> 'a packet_scheme \<Rightarrow> slice" where
  "pending_payload W p =
     (case last_layer p of None \<Rightarrow> data p | Some l \<Rightarrow> LayerPayload W l)"

text \<open>
  \<^verbatim>\<open>recoverDecodeError\<close>, run as the deferred call of a decode step. The step panics
  with the decoder's own panic value or, when the decoder returned an error, with that
  error; \<^verbatim>\<open>fmt.Errorf("%v", r)\<close> keeps its message.
\<close>

definition recoverDecodeError :: "world \<Rightarrow> string \<Rightarrow> 'a packet_scheme \<Rightarrow> 'a packet_scheme" where
  "recoverDecodeError W r p =
     (let fail_data = (case last_layer p of None \<Rightarrow> data p | Some l \<Rightarrow> LayerPayload W l)
      in AddLayer (DecodeFailure r fail_data) p)"

text \<open>
  The end of \<^verbatim>\<open>initialDecode\<close> and of \<^verbatim>\<open>decodeNextLayer\<close>: an error returned is turned
  into a panic, and the deferred \<^verbatim>\<open>recoverDecodeError\<close> catches every panic. A step
  that ran out of fuel has no result.
\<close>

fun finish_decode :: "world \<Rightarrow> outcome \<times> 'a packet_scheme \<Rightarrow> 'a packet_scheme option" where
  "finish_decode W (Ret None, p) = Some p"
| "finish_decode W (Ret (Some e), p) = Some (recoverDecodeError W e p)"
| "finish_decode W (Panicked r, p) = Some (recoverDecodeError W r p)"
| "finish_decode W (OutOfFuel, p) = None"

section \<open>Running a decoder against a builder\<close>

text \<open>
  \<open>exec nd prog p\<close> runs the calls of a decoder on the packet \<open>p\<close>; \<open>nd\<close> is the
  \<^verbatim>\<open>NextDecoder\<close> method of the engine the packet belongs to. A panic inside
  \<^verbatim>\<open>NextDecoder\<close> unwinds through the calling decoder.
\<close>

primrec exec :: "(decoder option \<Rightarrow> 'a packet_scheme \<Rightarrow> outcome \<times> 'a packet_scheme)
    \<Rightarrow> prog \<Rightarrow> 'a packet_scheme \<Rightarrow> outcome \<times> 'a packet_scheme" where
  "exec nd (Return e) p = (Ret e, p)"
| "exec nd (Panic r) p = (Panicked r, p)"
| "exec nd (CallAddLayer l k) p = exec nd k (AddLayer l p)"
| "exec nd (CallSetLinkLayer l k) p = exec nd k (SetLinkLayer l p)"
| "exec nd (CallSetNetworkLayer l k) p = exec nd k (SetNetworkLayer l p)"
| "exec nd (CallSetTransportLayer l k) p = exec nd k (SetTransportLayer l p)"
| "exec nd (CallSetApplicationLayer l k) p = exec nd k (SetApplicationLayer l p)"
| "exec nd (CallSetErrorLayer l k) p = exec nd k (SetErrorLayer l p)"
| "exec nd (CallNextDecoder d k) p =
     (case nd d p of
        (Ret e, p') \<Rightarrow> exec nd (k e) p'
      | (Panicked r, p') \<Rightarrow> (Panicked r, p')
      | (OutOfFuel, p') \<Rightarrow> (OutOfFuel, p'))"

section \<open>The eager engine\<close>

definition nilDecoderError :: error where
  "nilDecoderError = ''NextDecoder passed nil decoder, probably an unsupported decode type''"

definition noLayersError :: error where
  "noLayersError = ''NextDecoder called, but no layers added yet''"

text \<open>
  \<^verbatim>\<open>eagerPacket.NextDecoder\<close>; \<open>call d s p\<close> is the method call \<^verbatim>\<open>next.Decode(d, p)\<close>.
\<close>

definition eager_NextDecoder ::
  "world \<Rightarrow> (decoder \<Rightarrow> slice \<Rightarrow> packet \<Rightarrow> outcome \<times> packet)
    \<Rightarrow> decoder option \<Rightarrow> packet \<Rightarrow> outcome \<times> packet" where
  "eager_NextDecoder W call nxt p =
     (case nxt of
        None \<Rightarrow> (Ret (Some nilDecoderError), p)
      | Some dec \<Rightarrow>
          (case last_layer p of
             None \<Rightarrow> (Ret (Some noLayersError), p)
           | Some l \<Rightarrow>
               (let d = LayerPayload W l
                in if len d = 0 then (Ret None, p) else call dec d p)))"

text \<open>
  \<^verbatim>\<open>dec.Decode(d, p)\<close> on an eager packet. Decoders call \<^verbatim>\<open>NextDecoder\<close>, which calls
  the next decoder, and nothing bounds the depth: the fuel bounds the number of nested
  decoder calls, and \<open>OutOfFuel\<close> stands for a chain that does not end.
\<close>

primrec eager_Decode :: "nat \<Rightarrow> world \<Rightarrow> heap \<Rightarrow> decoder \<Rightarrow> slice \<Rightarrow> packet \<Rightarrow> outcome \<times> packet" where
  "eager_Decode 0 W h dec d p = (OutOfFuel, p)"
| "eager_Decode (Suc n) W h dec d p =
     exec (eager_NextDecoder W (eager_Decode n W h)) (Decode W dec h d) p"

text \<open>\<^verbatim>\<open>eagerPacket.initialDecode\<close>. A nil first decoder is a nil dereference, a panic
  that the deferred call recovers.\<close>

definition nilDereference :: string where
  "nilDereference = ''runtime error: invalid memory address or nil pointer dereference''"

definition initialDecode :: "nat \<Rightarrow> world \<Rightarrow> heap \<Rightarrow> decoder option \<Rightarrow> packet \<Rightarrow> packet option" where
  "initialDecode n W h dec p =
     (case dec of
        None \<Rightarrow> finish_decode W (Panicked nilDereference, p)
      | Some d \<Rightarrow> finish_decode W (eager_Decode n W h d (data p) p))"

text \<open>The accessors of \<^verbatim>\<open>eagerPacket\<close>: each returns its result and leaves the packet
  as it is.\<close>

definition eager_LinkLayer :: "packet \<Rightarrow> layer option \<times> packet" where
  "eager_LinkLayer p = (link p, p)"

definition eager_NetworkLayer :: "packet \<Rightarrow> layer option \<times> packet" where
  "eager_NetworkLayer p = (network p, p)"

definition eager_TransportLayer :: "packet \<Rightarrow> layer option \<times> packet" where
  "eager_TransportLayer p = (transport p, p)"

definition eager_ApplicationLayer :: "packet \<Rightarrow> layer option \<times> packet" where
  "eager_ApplicationLayer p = (application p, p)"

definition eager_ErrorLayer :: "packet \<Rightarrow> layer option \<times> packet" where
  "eager_ErrorLayer p = (failure p, p)"

definition eager_Layers :: "packet \<Rightarrow> layer list \<times> packet" where
  "eager_Layers p = (layers p, p)"

definition eager_Layer :: "world \<Rightarrow> LayerType \<Rightarrow> packet \<Rightarrow> layer option \<times> packet" where
  "eager_Layer W t p = (find (\<lambda>l. LayerType W l = t) (layers p), p)"

text \<open>A \<^verbatim>\<open>LayerClass\<close> is given by its method \<^verbatim>\<open>Contains\<close>.\<close>

definition eager_LayerClass :: "world \<Rightarrow> (LayerType \<Rightarrow> bool) \<Rightarrow> packet \<Rightarrow> layer option \<times> packet" where
  "eager_LayerClass W lc p = (find (\<lambda>l. lc (LayerType W l)) (layers p), p)"

section \<open>The lazy engine\<close>

definition lazy_NextDecoder :: "decoder option \<Rightarrow> lazyPacket \<Rightarrow> outcome \<times> lazyPacket" where
  "lazy_NextDecoder nxt p =
     (case nxt of
        None \<Rightarrow> (Ret (Some nilDecoderError), p)
      | Some dec \<Rightarrow> (Ret None, p\<lparr>next := Some dec\<rparr>))"

definition decodeNextLayer :: "world \<Rightarrow> heap \<Rightarrow> lazyPacket \<Rightarrow> lazyPacket option" where
  "decodeNextLayer W h p =
     (case next p of
        None \<Rightarrow> Some p
      | Some nxt \<Rightarrow>
          (let d = (case last_layer p of None \<Rightarrow> data p | Some l \<Rightarrow> LayerPayload W l);
               p1 = p\<lparr>next := None\<rparr>
           in if len d = 0 then Some p1
              else finish_decode W (exec lazy_NextDecoder (Decode W nxt h d) p1)))"

text \<open>
  The loop of the role accessors and of \<^verbatim>\<open>Layers\<close>:
  \<^verbatim>\<open>for unsatisfied(p) && p.next != nil { p.decodeNextLayer() }\<close>.
  The loop has no bound of its own; the fuel bounds its iterations.
\<close>

fun decode_while :: "(lazyPacket \<Rightarrow> bool) \<Rightarrow> nat \<Rightarrow> world \<Rightarrow> heap \<Rightarrow> lazyPacket \<Rightarrow> lazyPacket option" where
  "decode_while unsat n W h p =
     (if unsat p \<and> next p \<noteq> None
      then (case n of
              0 \<Rightarrow> None
            | Suc m \<Rightarrow>
                (case decodeNextLayer W h p of
                   None \<Rightarrow> None
                 | Some p' \<Rightarrow> decode_while unsat m W h p'))
      else Some p)"

definition lazy_LinkLayer :: "nat \<Rightarrow> world \<Rightarrow> heap \<Rightarrow> lazyPacket \<Rightarrow> (layer option \<times> lazyPacket) option" where
  "lazy_LinkLayer n W h p =
     map_option (\<lambda>p'. (link p', p')) (decode_while (\<lambda>q. link q = None) n W h p)"

definition lazy_NetworkLayer :: "nat \<Rightarrow> world \<Rightarrow> heap \<Rightarrow> lazyPacket \<Rightarrow> (layer option \<times> lazyPacket) option" where
  "lazy_NetworkLayer n W h p =
     map_option (\<lambda>p'. (network p', p')) (decode_while (\<lambda>q. network q = None) n W h p)"

definition lazy_TransportLayer :: "nat \<Rightarrow> world \<Rightarrow> heap \<Rightarrow> lazyPacket \<Rightarrow> (layer option \<times> lazyPacket) option" where
  "lazy_TransportLayer n W h p =
     map_option (\<lambda>p'. (transport p', p')) (decode_while (\<lambda>q. transport q = None) n W h p)"

definition lazy_ApplicationLayer :: "nat \<Rightarrow> world \<Rightarrow> heap \<Rightarrow> lazyPacket \<Rightarrow> (layer option \<times> lazyPacket) option" where
  "lazy_ApplicationLayer n W h p =
     map_option (\<lambda>p'. (application p', p')) (decode_while (\<lambda>q. application q = None) n W h p)"

definition lazy_ErrorLayer :: "nat \<Rightarrow> world \<Rightarrow> heap \<Rightarrow> lazyPacket \<Rightarrow> (layer option \<times> lazyPacket) option" where
  "lazy_ErrorLayer n W h p =
     map_option (\<lambda>p'. (failure p', p')) (decode_while (\<lambda>q. failure q = None) n W h p)"

definition lazy_Layers :: "nat \<Rightarrow> world \<Rightarrow> heap \<Rightarrow> lazyPacket \<Rightarrow> (layer list \<times> lazyPacket) option" where
  "lazy_Layers n W h p =
     map_option (\<lambda>p'. (layers p', p')) (decode_while (\<lambda>q. True) n W h p)"

text \<open>
  \<^verbatim>\<open>Layer\<close> and \<^verbatim>\<open>LayerClass\<close>: the layers already there are searched first; then each
  decode step is followed by a search of the layers it added (those from index
  \<^verbatim>\<open>numLayers\<close> on).
\<close>

fun lazy_find_loop :: "(layer \<Rightarrow> bool) \<Rightarrow> nat \<Rightarrow> world \<Rightarrow> heap \<Rightarrow> nat \<Rightarrow> lazyPacket
    \<Rightarrow> (layer option \<times> lazyPacket) option" where
  "lazy_find_loop want n W h numLayers p =
     (if next p \<noteq> None
      then (case n of
              0 \<Rightarrow> None
            | Suc m \<Rightarrow>
                (case decodeNextLayer W h p of
                   None \<Rightarrow> None
                 | Some p' \<Rightarrow>
                     (case find want (drop numLayers (layers p')) of
                        Some l \<Rightarrow> Some (Some l, p')
                      | None \<Rightarrow> lazy_find_loop want m W h (length (layers p')) p')))
      else Some (None, p))"

definition lazy_find :: "(layer \<Rightarrow> bool) \<Rightarrow> nat \<Rightarrow> world \<Rightarrow> heap \<Rightarrow> lazyPacket
    \<Rightarrow> (layer option \<times> lazyPacket) option" where
  "lazy_find want n W h p =
     (case find want (layers p) of
        Some l \<Rightarrow> Some (Some l, p)
      | None \<Rightarrow> lazy_find_loop want n W h (length (layers p)) p)"

definition lazy_Layer :: "nat \<Rightarrow> world \<Rightarrow> heap \<Rightarrow> LayerType \<Rightarrow> lazyPacket
    \<Rightarrow> (layer option \<times> lazyPacket) option" where
  "lazy_Layer n W h t p = lazy_find (\<lambda>l. LayerType W l = t) n W h p"

definition lazy_LayerClass :: "nat \<Rightarrow> world \<Rightarrow> heap \<Rightarrow> (LayerType \<Rightarrow> bool) \<Rightarrow> lazyPacket
    \<Rightarrow> (layer option \<times> lazyPacket) option" where
  "lazy_LayerClass n W h lc p = lazy_find (\<lambda>l. lc (LayerType W l)) n W h p"

section \<open>Construction\<close>

text \<open>The interface \<^verbatim>\<open>Packet\<close> holds one of the two engines.\<close>

datatype Packet = EagerP packet | LazyP lazyPacket

definition new_packet :: "slice \<Rightarrow> packet" where
  "new_packet d =
     \<lparr>data = d, layers = [], last_layer = None, capInfo = zero_CaptureInfo,
      link = None, network = None, transport = None, application = None, failure = None\<rparr>"

definition new_lazyPacket :: "slice \<Rightarrow> decoder option \<Rightarrow> lazyPacket" where
  "new_lazyPacket d dec = packet.extend (new_packet d) (lazyPacket.fields dec)"

definition NewPacket :: "nat \<Rightarrow> world \<Rightarrow> heap \<Rightarrow> slice \<Rightarrow> decoder option \<Rightarrow> DecodeOptions
    \<Rightarrow> (heap \<times> Packet) option" where
  "NewPacket n W h dat firstLayerDecoder options =
     (let (h1, dat1) =
            (if \<not> NoCopy options
             then (let (h', dataCopy) = make_bytes h (len dat)
                   in (copy h' dataCopy dat, dataCopy))
             else (h, dat))
      in if Lazy options
         then Some (h1, LazyP (new_lazyPacket dat1 firstLayerDecoder))
         else (case initialDecode n W h1 firstLayerDecoder (new_packet dat1) of
                 None \<Rightarrow> None
               | Some p \<Rightarrow> Some (h1, EagerP p)))"

text \<open>The methods of the interface, dispatched on the engine.\<close>

definition Packet_Data :: "Packet \<Rightarrow> slice" where
  "Packet_Data pk = (case pk of EagerP p \<Rightarrow> Data p | LazyP p \<Rightarrow> Data p)"

definition Packet_CaptureInfo :: "Packet \<Rightarrow> CaptureInfo" where
  "Packet_CaptureInfo pk = (case pk of EagerP p \<Rightarrow> capInfo p | LazyP p \<Rightarrow> capInfo p)"

definition set_CaptureInfo :: "CaptureInfo \<Rightarrow> Packet \<Rightarrow> Packet" where
  "set_CaptureInfo ci pk =
     (case pk of EagerP p \<Rightarrow> EagerP (p\<lparr>capInfo := ci\<rparr>) | LazyP p \<Rightarrow> LazyP (p\<lparr>capInfo := ci\<rparr>))"

definition lift_eager :: "'r \<times> packet \<Rightarrow> ('r \<times> Packet) option" where
  "lift_eager r = Some (fst r, EagerP (snd r))"

definition lift_lazy :: "('r \<times> lazyPacket) option \<Rightarrow> ('r \<times> Packet) option" where
  "lift_lazy r = map_option (\<lambda>(x, p). (x, LazyP p)) r"

definition Packet_Layers :: "nat \<Rightarrow> world \<Rightarrow> heap \<Rightarrow> Packet \<Rightarrow> (layer list \<times> Packet) option" where
  "Packet_Layers n W h pk =
     (case pk of EagerP p \<Rightarrow> lift_eager (eager_Layers p) | LazyP p \<Rightarrow> lift_lazy (lazy_Layers n W h p))"

definition Packet_LinkLayer :: "nat \<Rightarrow> world \<Rightarrow> heap \<Rightarrow> Packet \<Rightarrow> (layer option \<times> Packet) option" where
  "Packet_LinkLayer n W h pk =
     (case pk of EagerP p \<Rightarrow> lift_eager (eager_LinkLayer p) | LazyP p \<Rightarrow> lift_lazy (lazy_LinkLayer n W h p))"

definition Packet_NetworkLayer :: "nat \<Rightarrow> world \<Rightarrow> heap \<Rightarrow> Packet \<Rightarrow> (layer option \<times> Packet) option" where
  "Packet_NetworkLayer n W h pk =
     (case pk of EagerP p \<Rightarrow> lift_eager (eager_NetworkLayer p)
      | LazyP p \<Rightarrow> lift_lazy (lazy_NetworkLayer n W h p))"

definition Packet_TransportLayer :: "nat \<Rightarrow> world \<Rightarrow> heap \<Rightarrow> Packet \<Rightarrow> (layer option \<times> Packet) option" where
  "Packet_TransportLayer n W h pk =
     (case pk of EagerP p \<Rightarrow> lift_eager (eager_TransportLayer p)
      | LazyP p \<Rightarrow> lift_lazy (lazy_TransportLayer n W h p))"

definition Packet_ApplicationLayer :: "nat \<Rightarrow> world \<Rightarrow> heap \<Rightarrow> Packet \<Rightarrow> (layer option \<times> Packet) option" where
  "Packet_ApplicationLayer n W h pk =
     (case pk of EagerP p \<Rightarrow> lift_eager (eager_ApplicationLayer p)
      | LazyP p \<Rightarrow> lift_lazy (lazy_ApplicationLayer n W h p))"

definition Packet_ErrorLayer :: "nat \<Rightarrow> world \<Rightarrow> heap \<Rightarrow> Packet \<Rightarrow> (layer option \<times> Packet) option" where
  "Packet_ErrorLayer n W h pk =
     (case pk of EagerP p \<Rightarrow> lift_eager (eager_ErrorLayer p)
      | LazyP p \<Rightarrow> lift_lazy (lazy_ErrorLayer n W h p))"

definition Packet_Layer :: "nat \<Rightarrow> world \<Rightarrow> heap \<Rightarrow> LayerType \<Rightarrow> Packet \<Rightarrow> (layer option \<times> Packet) option" where
  "Packet_Layer n W h t pk =
     (case pk of EagerP p \<Rightarrow> lift_eager (eager_Layer W t p)
      | LazyP p \<Rightarrow> lift_lazy (lazy_Layer n W h t p))"

definition Packet_LayerClass :: "nat \<Rightarrow> world \<Rightarrow> heap \<Rightarrow> (LayerType \<Rightarrow> bool) \<Rightarrow> Packet
    \<Rightarrow> (layer option \<times> Packet) option" where
  "Packet_LayerClass n W h lc pk =
     (case pk of EagerP p \<Rightarrow> lift_eager (eager_LayerClass W lc p)
      | LazyP p \<Rightarrow> lift_lazy (lazy_LayerClass n W h lc p))"

text \<open>The fields of \<^verbatim>\<open>packet\<close> that both engines share.\<close>

definition base :: "Packet \<Rightarrow> packet" where
  "base pk = (case pk of EagerP p \<Rightarrow> p | LazyP p \<Rightarrow> packet.truncate p)"

section \<open>The packet source\<close>

text \<open>
  A \<^verbatim>\<open>PacketDataSource\<close> is given by the results of its successive reads; its state is
  the number of reads made. \<^verbatim>\<open>io.EOF\<close> is one error value among the others.
\<close>

datatype io_error = io_EOF | SourceError string

record PacketDataSource =
  reads :: "nat \<Rightarrow> io_error + slice \<times> CaptureInfo"
  pos :: nat


record PacketSource =
  source :: PacketDataSource
  decoder :: "decoder option"
  DecodeOptions :: DecodeOptions







section \<open>Auxiliary notions\<close>

text \<open>
  Predicates and functions that the theorems below are stated with. None of them is part of
  \<^verbatim>\<open>packet.go\<close>.
\<close>

text \<open>A role that is set stays as it is.\<close>

definition role_kept :: "layer option \<Rightarrow> layer option \<Rightarrow> bool" where
  "role_kept r r' = (r \<noteq> None \<longrightarrow> r' = r)"

definition roles_kept :: "'a packet_scheme \<Rightarrow> 'b packet_scheme \<Rightarrow> bool" where
  "roles_kept p p' =
     (role_kept (link p) (link p') \<and> role_kept (network p) (network p') \<and>
      role_kept (transport p) (transport p') \<and> role_kept (application p) (application p') \<and>
      role_kept (failure p) (failure p'))"

text \<open>The layer sequence only grows.\<close>

definition grows :: "'a packet_scheme \<Rightarrow> 'b packet_scheme \<Rightarrow> bool" where
  "grows p p' = (\<exists>xs. layers p' = layers p @ xs)"

text \<open>
  The decoder that the last successful \<^verbatim>\<open>NextDecoder\<close> call of a decoder passed, along
  the path the decoder takes on a lazy packet; \<open>r\<close> when it made none.
\<close>

primrec last_request :: "prog \<Rightarrow> decoder option \<Rightarrow> decoder option" where
  "last_request (Return e) r = r"
| "last_request (Panic x) r = r"
| "last_request (CallAddLayer l k) r = last_request k r"
| "last_request (CallSetLinkLayer l k) r = last_request k r"
| "last_request (CallSetNetworkLayer l k) r = last_request k r"
| "last_request (CallSetTransportLayer l k) r = last_request k r"
| "last_request (CallSetApplicationLayer l k) r = last_request k r"
| "last_request (CallSetErrorLayer l k) r = last_request k r"
| "last_request (CallNextDecoder d k) r =
     (case d of
        None \<Rightarrow> last_request (k (Some nilDecoderError)) r
      | Some x \<Rightarrow> last_request (k None) (Some x))"

text \<open>The buffer \<^verbatim>\<open>NewPacket\<close> gives the packet: its first \<^verbatim>\<open>if\<close>.\<close>

definition own_buffer :: "heap \<Rightarrow> slice \<Rightarrow> DecodeOptions \<Rightarrow> heap \<times> slice" where
  "own_buffer h dat options =
     (if \<not> NoCopy options
      then (let (h', dataCopy) = make_bytes h (len dat) in (copy h' dataCopy dat, dataCopy))
      else (h, dat))"

text \<open>A decoder that never calls \<^verbatim>\<open>NextDecoder\<close>.\<close>

primrec no_next :: "prog \<Rightarrow> bool" where
  "no_next (Return e) = True"
| "no_next (Panic r) = True"
| "no_next (CallAddLayer l k) = no_next k"
| "no_next (CallSetLinkLayer l k) = no_next k"
| "no_next (CallSetNetworkLayer l k) = no_next k"
| "no_next (CallSetTransportLayer l k) = no_next k"
| "no_next (CallSetApplicationLayer l k) = no_next k"
| "no_next (CallSetErrorLayer l k) = no_next k"
| "no_next (CallNextDecoder d k) = False"

text \<open>A slice that lies within an array of the store.\<close>

definition valid_slice :: "heap \<Rightarrow> slice \<Rightarrow> bool" where
  "valid_slice h s = (arr s < length h \<and> off s + len s \<le> length (h ! arr s))"

text \<open>Every layer a decoder may add satisfies \<open>P\<close>.\<close>

primrec all_added :: "(layer \<Rightarrow> bool) \<Rightarrow> prog \<Rightarrow> bool" where
  "all_added P (Return e) = True"
| "all_added P (Panic r) = True"
| "all_added P (CallAddLayer l k) = (P l \<and> all_added P k)"
| "all_added P (CallSetLinkLayer l k) = all_added P k"
| "all_added P (CallSetNetworkLayer l k) = all_added P k"
| "all_added P (CallSetTransportLayer l k) = all_added P k"
| "all_added P (CallSetApplicationLayer l k) = all_added P k"
| "all_added P (CallSetErrorLayer l k) = all_added P k"
| "all_added P (CallNextDecoder d k) = (\<forall>e. all_added P (k e))"

text \<open>\<open>t\<close> is empty or a part of \<open>s\<close>.\<close>

definition sub_slice :: "slice \<Rightarrow> slice \<Rightarrow> bool" where
  "sub_slice t s =
     (len t = 0 \<or> (arr t = arr s \<and> off s \<le> off t \<and> off t + len t \<le> off s + len s))"

text \<open>A slice that reads nothing but the array \<open>a\<close>.\<close>

definition reads_only :: "nat \<Rightarrow> slice \<Rightarrow> bool" where
  "reads_only a s = (len s = 0 \<or> arr s = a)"

text \<open>
  What the engine relies on from its collaborators: a decoder looks only at the bytes it
  is handed, the payload of a layer it adds is a part of the slice it is handed, and the
  payload of a \<^verbatim>\<open>DecodeFailure\<close> is a part of its data.
\<close>

definition disciplined :: "world \<Rightarrow> bool" where
  "disciplined W =
     ((\<forall>d h h' s. read_slice h s = read_slice h' s \<longrightarrow> Decode W d h s = Decode W d h' s) \<and>
      (\<forall>d h s. all_added (\<lambda>l. sub_slice (LayerPayload W l) s) (Decode W d h s)) \<and>
      (\<forall>e s. sub_slice (DecodeFailure_LayerPayload W e s) s))"

text \<open>The buffer of the packet is in array \<open>a\<close>, and so is every payload it holds.\<close>

definition in_buffer :: "world \<Rightarrow> nat \<Rightarrow> 'a packet_scheme \<Rightarrow> bool" where
  "in_buffer W a p =
     (arr (data p) = a \<and> (\<forall>l \<in> set (layers p). reads_only a (LayerPayload W l)) \<and>
      (\<forall>l. last_layer p = Some l \<longrightarrow> reads_only a (LayerPayload W l)))"

text \<open>
  A decoder in tail form: \<^verbatim>\<open>NextDecoder\<close> is its last call, and it returns what that
  call returns (\<^verbatim>\<open>return p.NextDecoder(next)\<close>).
\<close>

primrec tail_calls :: "prog \<Rightarrow> bool" where
  "tail_calls (Return e) = True"
| "tail_calls (Panic r) = True"
| "tail_calls (CallAddLayer l k) = tail_calls k"
| "tail_calls (CallSetLinkLayer l k) = tail_calls k"
| "tail_calls (CallSetNetworkLayer l k) = tail_calls k"
| "tail_calls (CallSetTransportLayer l k) = tail_calls k"
| "tail_calls (CallSetApplicationLayer l k) = tail_calls k"
| "tail_calls (CallSetErrorLayer l k) = tail_calls k"
| "tail_calls (CallNextDecoder d k) = (k = Return)"

text \<open>
  A decoder that asks for a next decoder only after a layer has been added; \<open>b\<close> tells
  whether one has been added so far.
\<close>

primrec layer_first :: "bool \<Rightarrow> prog \<Rightarrow> bool" where
  "layer_first b (Return e) = True"
| "layer_first b (Panic r) = True"
| "layer_first b (CallAddLayer l k) = layer_first True k"
| "layer_first b (CallSetLinkLayer l k) = layer_first b k"
| "layer_first b (CallSetNetworkLayer l k) = layer_first b k"
| "layer_first b (CallSetTransportLayer l k) = layer_first b k"
| "layer_first b (CallSetApplicationLayer l k) = layer_first b k"
| "layer_first b (CallSetErrorLayer l k) = layer_first b k"
| "layer_first b (CallNextDecoder d k) = (d = None \<or> b)"

text \<open>How a decoder in tail form ends, and the builder calls it makes before.\<close>

datatype ending = EndReturn "error option" | EndPanic string | EndNext "decoder option"

primrec run_calls :: "prog \<Rightarrow> 'a packet_scheme \<Rightarrow> ending \<times> 'a packet_scheme" where
  "run_calls (Return e) p = (EndReturn e, p)"
| "run_calls (Panic r) p = (EndPanic r, p)"
| "run_calls (CallAddLayer l k) p = run_calls k (AddLayer l p)"
| "run_calls (CallSetLinkLayer l k) p = run_calls k (SetLinkLayer l p)"
| "run_calls (CallSetNetworkLayer l k) p = run_calls k (SetNetworkLayer l p)"
| "run_calls (CallSetTransportLayer l k) p = run_calls k (SetTransportLayer l p)"
| "run_calls (CallSetApplicationLayer l k) p = run_calls k (SetApplicationLayer l p)"
| "run_calls (CallSetErrorLayer l k) p = run_calls k (SetErrorLayer l p)"
| "run_calls (CallNextDecoder d k) p = (EndNext d, p)"

text \<open>The result of a decoder in tail form, from its ending.\<close>

fun end_with :: "(decoder option \<Rightarrow> 'a packet_scheme \<Rightarrow> outcome \<times> 'a packet_scheme)
    \<Rightarrow> ending \<times> 'a packet_scheme \<Rightarrow> outcome \<times> 'a packet_scheme" where
  "end_with nd (EndReturn e, q) = (Ret e, q)"
| "end_with nd (EndPanic r, q) = (Panicked r, q)"
| "end_with nd (EndNext d, q) = nd d q"





text \<open>The packet source after one read.\<close>

definition advance :: "PacketSource \<Rightarrow> PacketSource" where
  "advance ps = ps\<lparr>source := (source ps)\<lparr>pos := Suc (pos (source ps))\<rparr>\<rparr>"

text \<open>Constructing a packet returns, whatever the bytes: the fuel \<open>n\<close> is enough.\<close>

definition decodes :: "nat \<Rightarrow> world \<Rightarrow> PacketSource \<Rightarrow> bool" where
  "decodes n W ps = (\<forall>h d. NewPacket n W h d (decoder ps) (DecodeOptions ps) \<noteq> None)"

section \<open>Examples\<close>

text \<open>\<^verbatim>\<open>s[1:]\<close>, for a slice that is not empty.\<close>

definition tail_slice :: "slice \<Rightarrow> slice" where
  "tail_slice s = \<lparr>arr = arr s, off = Suc (off s), len = len s - 1\<rparr>"

text \<open>
  A chain of three decoders: decoder 0 adds layer A, claims the link role and asks for
  decoder 1; decoder 1 adds layer B, claims the link role too and asks for decoder 2;
  decoder 2 fails with "short buffer".
\<close>

definition chain_Decode :: "decoder \<Rightarrow> heap \<Rightarrow> slice \<Rightarrow> prog" where
  "chain_Decode d h s =
     (if d = 0 then
        CallAddLayer (ProtoLayer 1 ''A'' (tail_slice s))
          (CallSetLinkLayer (Some (ProtoLayer 1 ''A'' (tail_slice s)))
            (CallNextDecoder (Some 1) Return))
      else if d = 1 then
        CallAddLayer (ProtoLayer 2 ''B'' (tail_slice s))
          (CallSetLinkLayer (Some (ProtoLayer 2 ''B'' (tail_slice s)))
            (CallNextDecoder (Some 2) Return))
      else Return (Some ''short buffer''))"

definition chain_world :: world where
  "chain_world =
     \<lparr>Decode = chain_Decode, DecodeFailure_LayerType = 0,
      DecodeFailure_LayerPayload = (\<lambda>e d. nil_slice)\<rparr>"

text \<open>A store with one array of three bytes, and the slice of all of it.\<close>

definition three_bytes :: slice where
  "three_bytes = \<lparr>arr = 0, off = 0, len = 3\<rparr>"

definition chain_heap :: heap where
  "chain_heap = [[1, 2, 3]]"

text \<open>What the chain gives on the three bytes.\<close>

definition layer_A :: layer where
  "layer_A = ProtoLayer 1 ''A'' \<lparr>arr = 0, off = 1, len = 2\<rparr>"

definition layer_B :: layer where
  "layer_B = ProtoLayer 2 ''B'' \<lparr>arr = 0, off = 2, len = 1\<rparr>"

definition chain_failure :: layer where
  "chain_failure = DecodeFailure ''short buffer'' \<lparr>arr = 0, off = 2, len = 1\<rparr>"

definition chain_decoded :: packet where
  "chain_decoded =
     \<lparr>data = three_bytes, layers = [layer_A, layer_B, chain_failure],
      last_layer = Some chain_failure, capInfo = zero_CaptureInfo, link = Some layer_A,
      network = None, transport = None, application = None, failure = None\<rparr>"

definition chain_first_step :: lazyPacket where
  "chain_first_step =
     \<lparr>data = three_bytes, layers = [layer_A],
      last_layer = Some layer_A, capInfo = zero_CaptureInfo, link = Some layer_A,
      network = None, transport = None, application = None, failure = None, next = Some 1\<rparr>"

text \<open>A decoder that asks for decoder 1, then for decoder 2.\<close>

definition twice_Decode :: "decoder \<Rightarrow> heap \<Rightarrow> slice \<Rightarrow> prog" where
  "twice_Decode d h s =
     (if d = 0 then
        CallAddLayer (ProtoLayer 1 ''A'' (tail_slice s))
          (CallNextDecoder (Some 1) (\<lambda>e. CallNextDecoder (Some 2) Return))
      else if d = 1 then CallAddLayer (ProtoLayer 2 ''B'' (tail_slice s)) (Return None)
      else CallAddLayer (ProtoLayer 3 ''C'' (tail_slice s)) (Return None))"

definition twice_world :: world where
  "twice_world =
     \<lparr>Decode = twice_Decode, DecodeFailure_LayerType = 0,
      DecodeFailure_LayerPayload = (\<lambda>e d. nil_slice)\<rparr>"

definition layer_C :: layer where
  "layer_C = ProtoLayer 3 ''C'' \<lparr>arr = 0, off = 2, len = 1\<rparr>"

text \<open>The lazy packet of the three bytes after the step of that decoder.\<close>

definition twice_first_step :: lazyPacket where
  "twice_first_step =
     \<lparr>data = three_bytes, layers = [layer_A],
      last_layer = Some layer_A, capInfo = zero_CaptureInfo, link = None,
      network = None, transport = None, application = None, failure = None, next = Some 2\<rparr>"

text \<open>A lazy packet whose last layer has an empty payload, with a decoder pending.\<close>

definition drained_example :: lazyPacket where
  "drained_example =
     \<lparr>data = three_bytes, layers = [ProtoLayer 1 ''A'' nil_slice],
      last_layer = Some (ProtoLayer 1 ''A'' nil_slice), capInfo = zero_CaptureInfo,
      link = None, network = None, transport = None, application = None, failure = None,
      next = Some 1\<rparr>"

text \<open>Decoder 0 adds layer A, asks for decoder 1, and then fails.\<close>

definition queue_fail_Decode :: "decoder \<Rightarrow> heap \<Rightarrow> slice \<Rightarrow> prog" where
  "queue_fail_Decode d h s =
     (if d = 0 then
        CallAddLayer (ProtoLayer 1 ''A'' (tail_slice s))
          (CallNextDecoder (Some 1) (\<lambda>e. Return (Some ''short buffer'')))
      else CallAddLayer (ProtoLayer 2 ''B'' (tail_slice s)) (Return None))"

definition queue_fail_world :: world where
  "queue_fail_world =
     \<lparr>Decode = queue_fail_Decode, DecodeFailure_LayerType = 0,
      DecodeFailure_LayerPayload = (\<lambda>e d. nil_slice)\<rparr>"






text \<open>Decoder 0 asks for decoder 1 before any layer exists.\<close>

definition early_next_Decode :: "decoder \<Rightarrow> heap \<Rightarrow> slice \<Rightarrow> prog" where
  "early_next_Decode d h s =
     (if d = 0 then CallNextDecoder (Some 1) Return
      else CallAddLayer (ProtoLayer 2 ''B'' (tail_slice s)) (Return None))"

definition early_next_world :: world where
  "early_next_world =
     \<lparr>Decode = early_next_Decode, DecodeFailure_LayerType = 0,
      DecodeFailure_LayerPayload = (\<lambda>e d. nil_slice)\<rparr>"

text \<open>The chain decoded from a copy of the three bytes, in array 1.\<close>

definition copied_decoded :: packet where
  "copied_decoded =
     \<lparr>data = \<lparr>arr = 1, off = 0, len = 3\<rparr>,
      layers = [ProtoLayer 1 ''A'' \<lparr>arr = 1, off = 1, len = 2\<rparr>,
                ProtoLayer 2 ''B'' \<lparr>arr = 1, off = 2, len = 1\<rparr>,
                DecodeFailure ''short buffer'' \<lparr>arr = 1, off = 2, len = 1\<rparr>],
      last_layer = Some (DecodeFailure ''short buffer'' \<lparr>arr = 1, off = 2, len = 1\<rparr>),
      capInfo = zero_CaptureInfo,
      link = Some (ProtoLayer 1 ''A'' \<lparr>arr = 1, off = 1, len = 2\<rparr>),
      network = None, transport = None, application = None, failure = None\<rparr>"

section \<open>Role pointers\<close>

declare decode_while.simps [simp del]
declare lazy_find_loop.simps [simp del]

lemma roles_kept_refl: "roles_kept p p"
  by (simp add: roles_kept_def role_kept_def)

lemma roles_kept_trans: "roles_kept p q \<Longrightarrow> roles_kept q r \<Longrightarrow> roles_kept p r"
  by (auto simp: roles_kept_def role_kept_def)

lemma roles_kept_builder:
  "roles_kept p (AddLayer l p)" "roles_kept p (SetLinkLayer x p)"
  "roles_kept p (SetNetworkLayer x p)" "roles_kept p (SetTransportLayer x p)"
  "roles_kept p (SetApplicationLayer x p)" "roles_kept p (SetErrorLayer x p)"
  by (simp_all add: roles_kept_def role_kept_def AddLayer_def SetLinkLayer_def
      SetNetworkLayer_def SetTransportLayer_def SetApplicationLayer_def SetErrorLayer_def)

lemma roles_kept_exec:
  assumes nd: "\<And>d q. roles_kept q (snd (nd d q))"
  shows "roles_kept p (snd (exec nd prog p))"
proof (induction prog arbitrary: p)
  case (CallNextDecoder d k)
  obtain out q where r: "nd d p = (out, q)" by (cases "nd d p")
  have pq: "roles_kept p q" using nd [of p d] r by simp
  show ?case
  proof (cases out)
    case (Ret e)
    have "roles_kept q (snd (exec nd (k e) q))" using CallNextDecoder by simp
    with pq show ?thesis using r Ret by (auto intro: roles_kept_trans)
  qed (use r pq in auto)
qed (auto intro: roles_kept_trans roles_kept_builder roles_kept_refl)

lemma roles_kept_eager_Decode: "roles_kept p (snd (eager_Decode n W h d s p))"
proof (induction n arbitrary: d s p)
  case 0
  show ?case by (simp add: roles_kept_refl)
next
  case (Suc n)
  have "\<And>x q. roles_kept q (snd (eager_NextDecoder W (eager_Decode n W h) x q))"
    by (auto simp: eager_NextDecoder_def Let_def roles_kept_refl Suc split: option.splits)
  then show ?case by (simp add: roles_kept_exec)
qed

lemma recover_pending:
  "recoverDecodeError W r p = AddLayer (DecodeFailure r (pending_payload W p)) p"
  by (simp add: recoverDecodeError_def pending_payload_def)

lemma roles_kept_recover: "roles_kept p (recoverDecodeError W r p)"
  by (simp add: recoverDecodeError_def Let_def roles_kept_builder)

lemma roles_kept_finish: "finish_decode W (out, q) = Some q' \<Longrightarrow> roles_kept q q'"
  by (cases "(W, (out, q))" rule: finish_decode.cases)
     (auto simp: roles_kept_refl roles_kept_recover)

lemma roles_kept_initialDecode:
  "initialDecode n W h dec p = Some p' \<Longrightarrow> roles_kept p p'"
proof (cases dec)
  case None
  assume "initialDecode n W h dec p = Some p'"
  with None show ?thesis by (auto simp: initialDecode_def roles_kept_recover)
next
  case (Some d)
  assume a: "initialDecode n W h dec p = Some p'"
  obtain out q where r: "eager_Decode n W h d (data p) p = (out, q)"
    by (cases "eager_Decode n W h d (data p) p")
  have "roles_kept p q" using roles_kept_eager_Decode [of p n W h d "data p"] r by simp
  moreover have "roles_kept q p'" using a Some r by (simp add: initialDecode_def roles_kept_finish)
  ultimately show ?thesis by (rule roles_kept_trans)
qed

lemma roles_kept_lazy_NextDecoder: "roles_kept q (snd (lazy_NextDecoder d q))"
  by (cases d) (simp_all add: lazy_NextDecoder_def roles_kept_def role_kept_def)

lemma exec_lazy_fuel: "fst (exec lazy_NextDecoder prog p) \<noteq> OutOfFuel"
proof (induction prog arbitrary: p)
  case (CallNextDecoder d k)
  then show ?case by (cases d) (simp_all add: lazy_NextDecoder_def)
qed simp_all

lemma finish_decode_Some: "out \<noteq> OutOfFuel \<Longrightarrow> \<exists>q'. finish_decode W (out, q) = Some q'"
  by (cases "(W, (out, q))" rule: finish_decode.cases) auto

lemma decodeNextLayer_returns: "\<exists>p'. decodeNextLayer W h p = Some p'"
proof (cases "next p")
  case None
  then show ?thesis by (simp add: decodeNextLayer_def)
next
  case (Some d)
  let ?s = "case last_layer p of None \<Rightarrow> data p | Some l \<Rightarrow> LayerPayload W l"
  obtain out q where r: "exec lazy_NextDecoder (Decode W d h ?s) (p\<lparr>next := None\<rparr>) = (out, q)"
    by (cases "exec lazy_NextDecoder (Decode W d h ?s) (p\<lparr>next := None\<rparr>)")
  have "out \<noteq> OutOfFuel" using exec_lazy_fuel [of "Decode W d h ?s" "p\<lparr>next := None\<rparr>"] r by simp
  then obtain q' where "finish_decode W (out, q) = Some q'" using finish_decode_Some by blast
  then show ?thesis using Some r by (simp add: decodeNextLayer_def Let_def)
qed

lemma roles_kept_next_update: "roles_kept p (p\<lparr>next := x\<rparr>)"
  by (simp add: roles_kept_def role_kept_def)

lemma roles_kept_decodeNextLayer:
  assumes "decodeNextLayer W h p = Some p'"
  shows "roles_kept p p'"
proof (cases "next p")
  case None
  with assms show ?thesis by (simp add: decodeNextLayer_def roles_kept_refl)
next
  case (Some d)
  let ?s = "case last_layer p of None \<Rightarrow> data p | Some l \<Rightarrow> LayerPayload W l"
  show ?thesis
  proof (cases "len ?s = 0")
    case True
    with assms Some show ?thesis
      by (auto simp: decodeNextLayer_def Let_def roles_kept_next_update)
  next
    case False
    obtain out q where r: "exec lazy_NextDecoder (Decode W d h ?s) (p\<lparr>next := None\<rparr>) = (out, q)"
      by (cases "exec lazy_NextDecoder (Decode W d h ?s) (p\<lparr>next := None\<rparr>)")
    have "roles_kept (p\<lparr>next := None\<rparr>) q"
      using roles_kept_exec [of lazy_NextDecoder "p\<lparr>next := None\<rparr>" "Decode W d h ?s"] r
      by (simp add: roles_kept_lazy_NextDecoder)
    moreover have "roles_kept q p'"
      using assms Some False r by (simp add: decodeNextLayer_def Let_def roles_kept_finish)
    ultimately show ?thesis
      using roles_kept_next_update [of p None] by (blast intro: roles_kept_trans)
  qed
qed

lemma decode_while_stop:
  "\<not> unsat p \<or> next p = None \<Longrightarrow> decode_while unsat n W h p = Some p"
  by (subst decode_while.simps) auto

lemma decode_while_0:
  "unsat p \<Longrightarrow> next p = Some d \<Longrightarrow> decode_while unsat 0 W h p = None"
  by (subst decode_while.simps) simp

lemma decode_while_Suc:
  "unsat p \<Longrightarrow> next p = Some d \<Longrightarrow>
   decode_while unsat (Suc n) W h p =
     (case decodeNextLayer W h p of None \<Rightarrow> None | Some p' \<Rightarrow> decode_while unsat n W h p')"
  by (subst decode_while.simps) simp

lemma lazy_find_loop_stop:
  "next p = None \<Longrightarrow> lazy_find_loop want n W h k p = Some (None, p)"
  by (subst lazy_find_loop.simps) simp

lemma lazy_find_loop_0:
  "next p = Some d \<Longrightarrow> lazy_find_loop want 0 W h k p = None"
  by (subst lazy_find_loop.simps) simp

lemma lazy_find_loop_Suc:
  "next p = Some d \<Longrightarrow>
   lazy_find_loop want (Suc n) W h k p =
     (case decodeNextLayer W h p of
        None \<Rightarrow> None
      | Some p' \<Rightarrow>
          (case find want (drop k (layers p')) of
             Some l \<Rightarrow> Some (Some l, p')
           | None \<Rightarrow> lazy_find_loop want n W h (length (layers p')) p'))"
  by (subst lazy_find_loop.simps) simp

lemma roles_kept_decode_while:
  "decode_while unsat n W h p = Some p' \<Longrightarrow> roles_kept p p'"
proof (induction n arbitrary: p)
  case 0
  show ?case
  proof (cases "unsat p \<and> next p \<noteq> None")
    case False
    with "0.prems" show ?thesis by (auto simp: decode_while_stop roles_kept_refl)
  next
    case True
    with "0.prems" show ?thesis by (auto simp: decode_while_0)
  qed
next
  case (Suc n)
  show ?case
  proof (cases "unsat p \<and> next p \<noteq> None")
    case False
    with Suc.prems show ?thesis by (auto simp: decode_while_stop roles_kept_refl)
  next
    case True
    obtain q where q: "decodeNextLayer W h p = Some q" using decodeNextLayer_returns by blast
    with True Suc.prems have "decode_while unsat n W h q = Some p'"
      by (auto simp: decode_while_Suc)
    then have "roles_kept q p'" by (rule Suc.IH)
    with roles_kept_decodeNextLayer [OF q] show ?thesis by (rule roles_kept_trans)
  qed
qed

lemma roles_kept_lazy_find_loop:
  "lazy_find_loop want n W h k p = Some (r, p') \<Longrightarrow> roles_kept p p'"
proof (induction n arbitrary: p k)
  case 0
  then show ?case
    by (cases "next p") (auto simp: lazy_find_loop_stop lazy_find_loop_0 roles_kept_refl)
next
  case (Suc n)
  show ?case
  proof (cases "next p")
    case None
    with Suc.prems show ?thesis
      by (auto simp: lazy_find_loop_stop roles_kept_refl)
  next
    case (Some d)
    obtain q where q: "decodeNextLayer W h p = Some q" using decodeNextLayer_returns by blast
    note pq = roles_kept_decodeNextLayer [OF q]
    show ?thesis
    proof (cases "find want (drop k (layers q))")
      case (Some l)
      with \<open>next p = Some d\<close> q Suc.prems have "p' = q"
        by (simp add: lazy_find_loop_Suc)
      with pq show ?thesis by simp
    next
      case None
      with \<open>next p = Some d\<close> q Suc.prems
      have "lazy_find_loop want n W h (length (layers q)) q = Some (r, p')"
        by (simp add: lazy_find_loop_Suc)
      then have "roles_kept q p'" by (rule Suc.IH)
      with pq show ?thesis by (rule roles_kept_trans)
    qed
  qed
qed

lemma roles_kept_lazy_find:
  "lazy_find want n W h p = Some (r, p') \<Longrightarrow> roles_kept p p'"
  by (auto simp: lazy_find_def roles_kept_refl split: option.splits
      dest: roles_kept_lazy_find_loop)

lemmas builder_defs = AddLayer_def SetLinkLayer_def SetNetworkLayer_def SetTransportLayer_def
  SetApplicationLayer_def SetErrorLayer_def

lemma roles_kept_truncate [simp]:
  "roles_kept (packet.truncate p) q = roles_kept p q"
  "roles_kept p (packet.truncate q) = roles_kept p q"
  by (simp_all add: roles_kept_def packet.truncate_def)

lemma lift_eager_role:
  "lift_eager (x, p) = Some (r, pk') \<Longrightarrow> r = x \<and> pk' = EagerP p"
  by (auto simp: lift_eager_def)

lemma truncate_sel:
  "link (packet.truncate q) = link q" "network (packet.truncate q) = network q"
  "transport (packet.truncate q) = transport q" "application (packet.truncate q) = application q"
  "failure (packet.truncate q) = failure q" "layers (packet.truncate q) = layers q"
  "last_layer (packet.truncate q) = last_layer q" "data (packet.truncate q) = data q"
  "capInfo (packet.truncate q) = capInfo q"
  by (simp_all add: packet.truncate_def)

lemma Packet_LinkLayer_kept:
  "Packet_LinkLayer n W h pk = Some (r, pk') \<Longrightarrow>
   r = link (base pk') \<and> roles_kept (base pk) (base pk')"
  by (cases pk)
     (auto simp: Packet_LinkLayer_def eager_LinkLayer_def lazy_LinkLayer_def base_def
       roles_kept_refl truncate_sel lift_lazy_def
       dest!: lift_eager_role roles_kept_decode_while)

lemma Packet_NetworkLayer_kept:
  "Packet_NetworkLayer n W h pk = Some (r, pk') \<Longrightarrow>
   r = network (base pk') \<and> roles_kept (base pk) (base pk')"
  by (cases pk)
     (auto simp: Packet_NetworkLayer_def eager_NetworkLayer_def lazy_NetworkLayer_def base_def
       roles_kept_refl truncate_sel lift_lazy_def
       dest!: lift_eager_role roles_kept_decode_while)

lemma Packet_TransportLayer_kept:
  "Packet_TransportLayer n W h pk = Some (r, pk') \<Longrightarrow>
   r = transport (base pk') \<and> roles_kept (base pk) (base pk')"
  by (cases pk)
     (auto simp: Packet_TransportLayer_def eager_TransportLayer_def lazy_TransportLayer_def base_def
       roles_kept_refl truncate_sel lift_lazy_def
       dest!: lift_eager_role roles_kept_decode_while)

lemma Packet_ApplicationLayer_kept:
  "Packet_ApplicationLayer n W h pk = Some (r, pk') \<Longrightarrow>
   r = application (base pk') \<and> roles_kept (base pk) (base pk')"
  by (cases pk)
     (auto simp: Packet_ApplicationLayer_def eager_ApplicationLayer_def lazy_ApplicationLayer_def
       base_def roles_kept_refl truncate_sel lift_lazy_def
       dest!: lift_eager_role roles_kept_decode_while)

lemma Packet_ErrorLayer_kept:
  "Packet_ErrorLayer n W h pk = Some (r, pk') \<Longrightarrow>
   r = failure (base pk') \<and> roles_kept (base pk) (base pk')"
  by (cases pk)
     (auto simp: Packet_ErrorLayer_def eager_ErrorLayer_def lazy_ErrorLayer_def base_def
       roles_kept_refl truncate_sel lift_lazy_def
       dest!: lift_eager_role roles_kept_decode_while)

lemma Packet_Layers_kept:
  "Packet_Layers n W h pk = Some (ls, pk') \<Longrightarrow> roles_kept (base pk) (base pk')"
  by (cases pk)
     (auto simp: Packet_Layers_def eager_Layers_def lazy_Layers_def base_def
       roles_kept_refl lift_lazy_def
       dest!: lift_eager_role roles_kept_decode_while)

lemma Packet_Layer_kept:
  "Packet_Layer n W h t pk = Some (r, pk') \<Longrightarrow> roles_kept (base pk) (base pk')"
  by (cases pk)
     (auto simp: Packet_Layer_def eager_Layer_def lazy_Layer_def base_def
       roles_kept_refl lift_lazy_def
       dest!: lift_eager_role roles_kept_lazy_find)

lemma Packet_LayerClass_kept:
  "Packet_LayerClass n W h lc pk = Some (r, pk') \<Longrightarrow> roles_kept (base pk) (base pk')"
  by (cases pk)
     (auto simp: Packet_LayerClass_def eager_LayerClass_def lazy_LayerClass_def base_def
       roles_kept_refl lift_lazy_def
       dest!: lift_eager_role roles_kept_lazy_find)

text \<open>
  C6. Role pointers are first-write-wins and monotonic. Each of the five setters writes
  its role only when the role is unset. Nothing else writes a role: adding a layer, the
  whole eager decode of a construction, a lazy decode step and every accessor of either
  engine leave a role that is set as it is (\<open>roles_kept\<close>), and each role getter
  returns the role pointer of the packet it leaves behind.
\<close>

theorem role_pointers_first_write_wins:
  "link (SetLinkLayer l p) = (if link p = None then l else link p) \<and>
   network (SetNetworkLayer l p) = (if network p = None then l else network p) \<and>
   transport (SetTransportLayer l p) = (if transport p = None then l else transport p) \<and>
   application (SetApplicationLayer l p) = (if application p = None then l else application p) \<and>
   failure (SetErrorLayer l p) = (if failure p = None then l else failure p) \<and>
   roles_kept p (AddLayer x p) \<and>
   (initialDecode n W h dec p0 = Some p1 \<longrightarrow> roles_kept p0 p1) \<and>
   (decodeNextLayer W h q = Some q' \<longrightarrow> roles_kept q q') \<and>
   (Packet_LinkLayer n W h pk = Some (r, pk') \<longrightarrow>
      r = link (base pk') \<and> roles_kept (base pk) (base pk')) \<and>
   (Packet_NetworkLayer n W h pk = Some (r, pk') \<longrightarrow>
      r = network (base pk') \<and> roles_kept (base pk) (base pk')) \<and>
   (Packet_TransportLayer n W h pk = Some (r, pk') \<longrightarrow>
      r = transport (base pk') \<and> roles_kept (base pk) (base pk')) \<and>
   (Packet_ApplicationLayer n W h pk = Some (r, pk') \<longrightarrow>
      r = application (base pk') \<and> roles_kept (base pk) (base pk')) \<and>
   (Packet_ErrorLayer n W h pk = Some (r, pk') \<longrightarrow>
      r = failure (base pk') \<and> roles_kept (base pk) (base pk')) \<and>
   (Packet_Layers n W h pk = Some (ls, pk') \<longrightarrow> roles_kept (base pk) (base pk')) \<and>
   (Packet_Layer n W h t pk = Some (r, pk') \<longrightarrow> roles_kept (base pk) (base pk')) \<and>
   (Packet_LayerClass n W h lc pk = Some (r, pk') \<longrightarrow> roles_kept (base pk) (base pk'))"
proof -
  have setters:
    "link (SetLinkLayer l p) = (if link p = None then l else link p)"
    "network (SetNetworkLayer l p) = (if network p = None then l else network p)"
    "transport (SetTransportLayer l p) = (if transport p = None then l else transport p)"
    "application (SetApplicationLayer l p) = (if application p = None then l else application p)"
    "failure (SetErrorLayer l p) = (if failure p = None then l else failure p)"
    by (simp_all add: builder_defs)
  show ?thesis
    using setters roles_kept_builder(1) [of p x] roles_kept_initialDecode [of n W h dec p0 p1]
      roles_kept_decodeNextLayer [of W h q q'] Packet_LinkLayer_kept [of n W h pk r pk']
      Packet_NetworkLayer_kept [of n W h pk r pk'] Packet_TransportLayer_kept [of n W h pk r pk']
      Packet_ApplicationLayer_kept [of n W h pk r pk'] Packet_ErrorLayer_kept [of n W h pk r pk']
      Packet_Layers_kept [of n W h pk ls pk'] Packet_Layer_kept [of n W h t pk r pk']
      Packet_LayerClass_kept [of n W h lc pk r pk']
    by blast
qed

lemma chain_lazy_drain:
  "Packet_Layers 3 chain_world chain_heap (LazyP chain_first_step) =
     Some ([layer_A, layer_B, chain_failure],
           LazyP (packet.extend chain_decoded (lazyPacket.fields None)))"
  by code_simp

theorem role_pointers_first_write_wins_witness:
  "Packet_Layers 3 chain_world chain_heap (LazyP chain_first_step) =
     Some ([layer_A, layer_B, chain_failure],
           LazyP (packet.extend chain_decoded (lazyPacket.fields None))) \<and>
   link chain_first_step = Some layer_A \<and>
   roles_kept (base (LazyP chain_first_step))
     (base (LazyP (packet.extend chain_decoded (lazyPacket.fields None)))) \<and>
   link (SetLinkLayer (Some layer_B) chain_first_step) = Some layer_A"
  using role_pointers_first_write_wins [where l = "Some layer_B" and p = chain_first_step
      and n = 3 and W = chain_world and h = chain_heap and pk = "LazyP chain_first_step"
      and pk' = "LazyP (packet.extend chain_decoded (lazyPacket.fields None))"
      and ls = "[layer_A, layer_B, chain_failure]"]
    chain_lazy_drain
  by (simp add: chain_first_step_def)

section \<open>Decode failures and the error layer\<close>

text \<open>
  C1. A failed decode step is caught and a \<^verbatim>\<open>DecodeFailure\<close> is appended as the last
  layer, but \<^verbatim>\<open>recoverDecodeError\<close> never registers it as the error layer. On three
  bytes, decoder 0 of the chain (A, then B, then a decoder that returns "short buffer")
  gives the layers A, B and the failure, and \<^verbatim>\<open>ErrorLayer()\<close> is nil, on the eager
  packet and on the lazy packet alike.
\<close>

theorem decode_failure_not_registered:
  "NewPacket 3 chain_world chain_heap three_bytes (Some 0) \<lparr>Lazy = False, NoCopy = True\<rparr> =
     Some (chain_heap, EagerP chain_decoded) \<and>
   layers chain_decoded = [layer_A, layer_B, chain_failure] \<and>
   Packet_ErrorLayer 0 chain_world chain_heap (EagerP chain_decoded) =
     Some (None, EagerP chain_decoded) \<and>
   Packet_ErrorLayer 3 chain_world chain_heap (LazyP (new_lazyPacket three_bytes (Some 0))) =
     Some (None, LazyP (packet.extend chain_decoded (lazyPacket.fields None)))"
  by code_simp

section \<open>Misuse of \<^verbatim>\<open>NextDecoder\<close>\<close>

text \<open>
  C8. On the lazy engine the check for a first layer is missing: before any layer has
  been added, \<^verbatim>\<open>NextDecoder\<close> with a decoder that is not nil returns no error and
  records the decoder as pending, where the eager engine returns its "no layers added
  yet" error.
\<close>

theorem lazy_NextDecoder_before_first_layer:
  "last_layer (new_lazyPacket three_bytes None) = None \<and>
   lazy_NextDecoder (Some 1) (new_lazyPacket three_bytes None) =
     (Ret None, new_lazyPacket three_bytes (Some 1)) \<and>
   eager_NextDecoder early_next_world (eager_Decode 1 early_next_world chain_heap) (Some 1)
     (new_packet three_bytes) = (Ret (Some noLayersError), new_packet three_bytes) \<and>
   map_option (\<lambda>r. layers (base (snd r)))
     (NewPacket 2 early_next_world chain_heap three_bytes (Some 0) \<lparr>Lazy = False, NoCopy = True\<rparr>) =
     Some [DecodeFailure noLayersError three_bytes] \<and>
   map_option fst
     (Packet_Layers 2 early_next_world chain_heap (LazyP (new_lazyPacket three_bytes (Some 0)))) =
     Some [ProtoLayer 2 ''B'' \<lparr>arr = 0, off = 1, len = 2\<rparr>]"
  by code_simp

text \<open>
  The other cases of C8. Both engines return the "nil decoder" error for a nil decoder,
  and the eager engine returns the "no layers added yet" error before the first layer;
  in each of these cases the packet is unchanged and the calling decoder goes on with
  the error value. The lazy engine, given a decoder that is not nil, never returns an
  error and only records the decoder as pending.
\<close>

theorem NextDecoder_misuse:
  "eager_NextDecoder W call None p = (Ret (Some nilDecoderError), p) \<and>
   (last_layer p = None \<longrightarrow>
      eager_NextDecoder W call (Some d) p = (Ret (Some noLayersError), p)) \<and>
   lazy_NextDecoder None q = (Ret (Some nilDecoderError), q) \<and>
   lazy_NextDecoder (Some d) q = (Ret None, q\<lparr>next := Some d\<rparr>) \<and>
   exec (eager_NextDecoder W call) (CallNextDecoder None k) p =
     exec (eager_NextDecoder W call) (k (Some nilDecoderError)) p \<and>
   (last_layer p = None \<longrightarrow>
      exec (eager_NextDecoder W call) (CallNextDecoder (Some d) k) p =
        exec (eager_NextDecoder W call) (k (Some noLayersError)) p) \<and>
   exec lazy_NextDecoder (CallNextDecoder None k) q =
     exec lazy_NextDecoder (k (Some nilDecoderError)) q"
  by (simp add: eager_NextDecoder_def lazy_NextDecoder_def)

theorem NextDecoder_misuse_witness:
  "last_layer (new_packet three_bytes) = None \<and>
   eager_NextDecoder chain_world (eager_Decode 1 chain_world chain_heap) (Some 1)
     (new_packet three_bytes) = (Ret (Some noLayersError), new_packet three_bytes) \<and>
   exec (eager_NextDecoder chain_world (eager_Decode 1 chain_world chain_heap))
     (CallNextDecoder (Some 1) Return) (new_packet three_bytes) =
     (Ret (Some noLayersError), new_packet three_bytes)"
  using NextDecoder_misuse [where p = "new_packet three_bytes" and W = chain_world
      and call = "eager_Decode 1 chain_world chain_heap" and d = 1 and k = Return]
  by (simp add: new_packet_def)

section \<open>Repeated requests on a lazy packet\<close>

lemma next_builder [simp]:
  "next (AddLayer l p) = next p" "next (SetLinkLayer x p) = next p"
  "next (SetNetworkLayer x p) = next p" "next (SetTransportLayer x p) = next p"
  "next (SetApplicationLayer x p) = next p" "next (SetErrorLayer x p) = next p"
  by (simp_all add: builder_defs)

lemma next_exec_lazy:
  "next (snd (exec lazy_NextDecoder prog p)) = last_request prog (next p)"
proof (induction prog arbitrary: p)
  case (CallNextDecoder d k)
  then show ?case by (cases d) (simp_all add: lazy_NextDecoder_def)
qed simp_all

lemma decodeNextLayer_run:
  "next p = Some d \<Longrightarrow> len (pending_payload W p) \<noteq> 0 \<Longrightarrow>
   decodeNextLayer W h p =
     finish_decode W (exec lazy_NextDecoder (Decode W d h (pending_payload W p)) (p\<lparr>next := None\<rparr>))"
  by (simp add: decodeNextLayer_def pending_payload_def Let_def)

lemma decodeNextLayer_empty:
  "next p = Some d \<Longrightarrow> len (pending_payload W p) = 0 \<Longrightarrow>
   decodeNextLayer W h p = Some (p\<lparr>next := None\<rparr>)"
  by (simp add: decodeNextLayer_def pending_payload_def Let_def)

lemma decodeNextLayer_idle:
  "next p = None \<Longrightarrow> decodeNextLayer W h p = Some p"
  by (simp add: decodeNextLayer_def)

text \<open>
  C10. On the lazy engine every \<^verbatim>\<open>NextDecoder\<close> call with a decoder that is not nil
  succeeds and overwrites the pending decoder: after two calls in a row the second
  decoder is pending; after any decoder the pending decoder is the one of its last such
  call (\<open>last_request\<close>); and the next decode step invokes the pending decoder.
\<close>

theorem lazy_NextDecoder_last_call_wins:
  "lazy_NextDecoder (Some d) p = (Ret None, p\<lparr>next := Some d\<rparr>) \<and>
   exec lazy_NextDecoder (CallNextDecoder (Some d1) (\<lambda>e. CallNextDecoder (Some d2) Return)) p =
     (Ret None, p\<lparr>next := Some d2\<rparr>) \<and>
   next (snd (exec lazy_NextDecoder prog p)) = last_request prog (next p) \<and>
   (next q = Some d2 \<and> len (pending_payload W q) \<noteq> 0 \<longrightarrow>
      decodeNextLayer W h q =
        finish_decode W
          (exec lazy_NextDecoder (Decode W d2 h (pending_payload W q)) (q\<lparr>next := None\<rparr>)))"
  using next_exec_lazy [of prog p] decodeNextLayer_run [of q d2 W h]
  by (simp add: lazy_NextDecoder_def)

lemma twice_steps:
  "decodeNextLayer twice_world chain_heap (new_lazyPacket three_bytes (Some 0)) =
     Some twice_first_step"
  "finish_decode twice_world
     (exec lazy_NextDecoder (Decode twice_world 2 chain_heap (pending_payload twice_world twice_first_step))
        (twice_first_step\<lparr>next := None\<rparr>)) =
     Some (twice_first_step\<lparr>layers := [layer_A, layer_C], last_layer := Some layer_C, next := None\<rparr>)"
  "len (pending_payload twice_world twice_first_step) = 2"
  by code_simp+

theorem lazy_NextDecoder_last_call_wins_witness:
  "decodeNextLayer twice_world chain_heap (new_lazyPacket three_bytes (Some 0)) =
     Some twice_first_step \<and>
   next twice_first_step = Some 2 \<and>
   decodeNextLayer twice_world chain_heap twice_first_step =
     Some (twice_first_step\<lparr>layers := [layer_A, layer_C], last_layer := Some layer_C, next := None\<rparr>)"
  using lazy_NextDecoder_last_call_wins [where q = twice_first_step and ?d2.0 = 2
      and W = twice_world and h = chain_heap] twice_steps
  by (simp add: twice_first_step_def)

section \<open>The lazy decode step and the accessor loops\<close>

lemma grows_refl: "grows p p"
  by (simp add: grows_def)

lemma grows_trans: "grows p q \<Longrightarrow> grows q r \<Longrightarrow> grows p r"
  by (auto simp: grows_def)

lemma grows_builder:
  "grows p (AddLayer l p)" "grows p (SetLinkLayer x p)"
  "grows p (SetNetworkLayer x p)" "grows p (SetTransportLayer x p)"
  "grows p (SetApplicationLayer x p)" "grows p (SetErrorLayer x p)"
  by (simp_all add: grows_def builder_defs)

lemma grows_exec:
  assumes nd: "\<And>d q. grows q (snd (nd d q))"
  shows "grows p (snd (exec nd prog p))"
proof (induction prog arbitrary: p)
  case (CallNextDecoder d k)
  obtain out q where r: "nd d p = (out, q)" by (cases "nd d p")
  have pq: "grows p q" using nd [of p d] r by simp
  show ?case
  proof (cases out)
    case (Ret e)
    have "grows q (snd (exec nd (k e) q))" using CallNextDecoder by simp
    with pq show ?thesis using r Ret by (auto intro: grows_trans)
  qed (use r pq in auto)
qed (auto intro: grows_trans grows_builder grows_refl)

lemma grows_lazy_NextDecoder: "grows q (snd (lazy_NextDecoder d q))"
  by (cases d) (simp_all add: lazy_NextDecoder_def grows_def)

lemma grows_finish: "finish_decode W (out, q) = Some q' \<Longrightarrow> grows q q'"
  by (cases "(W, (out, q))" rule: finish_decode.cases)
     (auto simp: grows_refl recoverDecodeError_def Let_def grows_builder)

lemma grows_decodeNextLayer:
  assumes "decodeNextLayer W h p = Some p'"
  shows "grows p p'"
proof (cases "next p")
  case None
  with assms show ?thesis by (simp add: decodeNextLayer_idle grows_refl)
next
  case (Some d)
  show ?thesis
  proof (cases "len (pending_payload W p) = 0")
    case True
    with assms Some show ?thesis by (auto simp: decodeNextLayer_empty grows_def)
  next
    case False
    let ?prog = "Decode W d h (pending_payload W p)"
    obtain out q where r: "exec lazy_NextDecoder ?prog (p\<lparr>next := None\<rparr>) = (out, q)"
      by (cases "exec lazy_NextDecoder ?prog (p\<lparr>next := None\<rparr>)")
    have "grows (p\<lparr>next := None\<rparr>) q"
      using grows_exec [of lazy_NextDecoder "p\<lparr>next := None\<rparr>" ?prog] r
      by (simp add: grows_lazy_NextDecoder)
    moreover have "grows q p'"
      using assms Some False r by (simp add: decodeNextLayer_run grows_finish)
    moreover have "grows p (p\<lparr>next := None\<rparr>)" by (simp add: grows_def)
    ultimately show ?thesis by (blast intro: grows_trans)
  qed
qed

lemma find_append_None:
  "find P xs = None \<Longrightarrow> find P (xs @ ys) = find P ys"
  by (induction xs) (auto split: if_splits)

lemma lazy_find_found:
  "find want (layers p) = Some l \<Longrightarrow> lazy_find want n W h p = Some (Some l, p)"
  by (simp add: lazy_find_def)

lemma lazy_find_drained:
  "find want (layers p) = None \<Longrightarrow> next p = None \<Longrightarrow> lazy_find want n W h p = Some (None, p)"
  by (simp add: lazy_find_def lazy_find_loop_stop)

lemma lazy_find_Suc:
  assumes "find want (layers p) = None" and "next p = Some d"
  shows "lazy_find want (Suc n) W h p =
     (case decodeNextLayer W h p of None \<Rightarrow> None | Some p' \<Rightarrow> lazy_find want n W h p')"
proof -
  obtain p' where p': "decodeNextLayer W h p = Some p'"
    using decodeNextLayer_returns by blast
  obtain xs where xs: "layers p' = layers p @ xs"
    using grows_decodeNextLayer [OF p'] by (auto simp: grows_def)
  have f: "find want (layers p') = find want xs"
    using assms(1) xs by (simp add: find_append_None)
  show ?thesis
    using assms p' xs f
    by (simp add: lazy_find_def lazy_find_loop_Suc split: option.splits)
qed

text \<open>
  C5. A lazy decode step works on the payload of the last layer, or on the whole buffer
  when there is no layer. With no decoder pending it does nothing; otherwise it clears
  the pending decoder, and stops there on an empty payload, or runs the decoder it took
  on the payload. Each accessor returns at once, with the packet unchanged, when its
  target is met or no decoder is pending, and otherwise makes one step and starts over.
\<close>

theorem lazy_decode_step:
  "pending_payload W p = (case last_layer p of None \<Rightarrow> data p | Some l \<Rightarrow> LayerPayload W l) \<and>
   (next p = None \<longrightarrow> decodeNextLayer W h p = Some p) \<and>
   (next p = Some d \<and> len (pending_payload W p) = 0 \<longrightarrow>
      decodeNextLayer W h p = Some (p\<lparr>next := None\<rparr>)) \<and>
   (next p = Some d \<and> len (pending_payload W p) \<noteq> 0 \<longrightarrow>
      decodeNextLayer W h p =
        finish_decode W
          (exec lazy_NextDecoder (Decode W d h (pending_payload W p)) (p\<lparr>next := None\<rparr>))) \<and>
   (link p \<noteq> None \<or> next p = None \<longrightarrow> lazy_LinkLayer n W h p = Some (link p, p)) \<and>
   (link p = None \<and> next p = Some d \<longrightarrow>
      lazy_LinkLayer (Suc n) W h p =
        (case decodeNextLayer W h p of None \<Rightarrow> None | Some p' \<Rightarrow> lazy_LinkLayer n W h p')) \<and>
   (network p \<noteq> None \<or> next p = None \<longrightarrow> lazy_NetworkLayer n W h p = Some (network p, p)) \<and>
   (network p = None \<and> next p = Some d \<longrightarrow>
      lazy_NetworkLayer (Suc n) W h p =
        (case decodeNextLayer W h p of None \<Rightarrow> None | Some p' \<Rightarrow> lazy_NetworkLayer n W h p')) \<and>
   (transport p \<noteq> None \<or> next p = None \<longrightarrow>
      lazy_TransportLayer n W h p = Some (transport p, p)) \<and>
   (transport p = None \<and> next p = Some d \<longrightarrow>
      lazy_TransportLayer (Suc n) W h p =
        (case decodeNextLayer W h p of None \<Rightarrow> None | Some p' \<Rightarrow> lazy_TransportLayer n W h p')) \<and>
   (application p \<noteq> None \<or> next p = None \<longrightarrow>
      lazy_ApplicationLayer n W h p = Some (application p, p)) \<and>
   (application p = None \<and> next p = Some d \<longrightarrow>
      lazy_ApplicationLayer (Suc n) W h p =
        (case decodeNextLayer W h p of None \<Rightarrow> None | Some p' \<Rightarrow> lazy_ApplicationLayer n W h p')) \<and>
   (failure p \<noteq> None \<or> next p = None \<longrightarrow> lazy_ErrorLayer n W h p = Some (failure p, p)) \<and>
   (failure p = None \<and> next p = Some d \<longrightarrow>
      lazy_ErrorLayer (Suc n) W h p =
        (case decodeNextLayer W h p of None \<Rightarrow> None | Some p' \<Rightarrow> lazy_ErrorLayer n W h p')) \<and>
   (next p = None \<longrightarrow> lazy_Layers n W h p = Some (layers p, p)) \<and>
   (next p = Some d \<longrightarrow>
      lazy_Layers (Suc n) W h p =
        (case decodeNextLayer W h p of None \<Rightarrow> None | Some p' \<Rightarrow> lazy_Layers n W h p')) \<and>
   (find (\<lambda>l. LayerType W l = t) (layers p) = Some x \<longrightarrow>
      lazy_Layer n W h t p = Some (Some x, p)) \<and>
   (find (\<lambda>l. LayerType W l = t) (layers p) = None \<and> next p = None \<longrightarrow>
      lazy_Layer n W h t p = Some (None, p)) \<and>
   (find (\<lambda>l. LayerType W l = t) (layers p) = None \<and> next p = Some d \<longrightarrow>
      lazy_Layer (Suc n) W h t p =
        (case decodeNextLayer W h p of None \<Rightarrow> None | Some p' \<Rightarrow> lazy_Layer n W h t p')) \<and>
   (find (\<lambda>l. lc (LayerType W l)) (layers p) = Some x \<longrightarrow>
      lazy_LayerClass n W h lc p = Some (Some x, p)) \<and>
   (find (\<lambda>l. lc (LayerType W l)) (layers p) = None \<and> next p = None \<longrightarrow>
      lazy_LayerClass n W h lc p = Some (None, p)) \<and>
   (find (\<lambda>l. lc (LayerType W l)) (layers p) = None \<and> next p = Some d \<longrightarrow>
      lazy_LayerClass (Suc n) W h lc p =
        (case decodeNextLayer W h p of None \<Rightarrow> None | Some p' \<Rightarrow> lazy_LayerClass n W h lc p'))"
proof -
  have step:
    "pending_payload W p = (case last_layer p of None \<Rightarrow> data p | Some l \<Rightarrow> LayerPayload W l)"
    "next p = None \<longrightarrow> decodeNextLayer W h p = Some p"
    "next p = Some d \<and> len (pending_payload W p) = 0 \<longrightarrow>
       decodeNextLayer W h p = Some (p\<lparr>next := None\<rparr>)"
    "next p = Some d \<and> len (pending_payload W p) \<noteq> 0 \<longrightarrow>
       decodeNextLayer W h p =
         finish_decode W
           (exec lazy_NextDecoder (Decode W d h (pending_payload W p)) (p\<lparr>next := None\<rparr>))"
    by (simp_all add: pending_payload_def decodeNextLayer_idle decodeNextLayer_empty
        decodeNextLayer_run)
  have roles:
    "link p \<noteq> None \<or> next p = None \<longrightarrow> lazy_LinkLayer n W h p = Some (link p, p)"
    "network p \<noteq> None \<or> next p = None \<longrightarrow> lazy_NetworkLayer n W h p = Some (network p, p)"
    "transport p \<noteq> None \<or> next p = None \<longrightarrow> lazy_TransportLayer n W h p = Some (transport p, p)"
    "application p \<noteq> None \<or> next p = None \<longrightarrow>
       lazy_ApplicationLayer n W h p = Some (application p, p)"
    "failure p \<noteq> None \<or> next p = None \<longrightarrow> lazy_ErrorLayer n W h p = Some (failure p, p)"
    "next p = None \<longrightarrow> lazy_Layers n W h p = Some (layers p, p)"
    unfolding lazy_LinkLayer_def lazy_NetworkLayer_def lazy_TransportLayer_def
      lazy_ApplicationLayer_def lazy_ErrorLayer_def lazy_Layers_def
    by (auto simp: decode_while_stop)
  have loops:
    "link p = None \<and> next p = Some d \<longrightarrow>
       lazy_LinkLayer (Suc n) W h p =
         (case decodeNextLayer W h p of None \<Rightarrow> None | Some p' \<Rightarrow> lazy_LinkLayer n W h p')"
    "network p = None \<and> next p = Some d \<longrightarrow>
       lazy_NetworkLayer (Suc n) W h p =
         (case decodeNextLayer W h p of None \<Rightarrow> None | Some p' \<Rightarrow> lazy_NetworkLayer n W h p')"
    "transport p = None \<and> next p = Some d \<longrightarrow>
       lazy_TransportLayer (Suc n) W h p =
         (case decodeNextLayer W h p of None \<Rightarrow> None | Some p' \<Rightarrow> lazy_TransportLayer n W h p')"
    "application p = None \<and> next p = Some d \<longrightarrow>
       lazy_ApplicationLayer (Suc n) W h p =
         (case decodeNextLayer W h p of None \<Rightarrow> None | Some p' \<Rightarrow> lazy_ApplicationLayer n W h p')"
    "failure p = None \<and> next p = Some d \<longrightarrow>
       lazy_ErrorLayer (Suc n) W h p =
         (case decodeNextLayer W h p of None \<Rightarrow> None | Some p' \<Rightarrow> lazy_ErrorLayer n W h p')"
    "next p = Some d \<longrightarrow>
       lazy_Layers (Suc n) W h p =
         (case decodeNextLayer W h p of None \<Rightarrow> None | Some p' \<Rightarrow> lazy_Layers n W h p')"
    unfolding lazy_LinkLayer_def lazy_NetworkLayer_def lazy_TransportLayer_def
      lazy_ApplicationLayer_def lazy_ErrorLayer_def lazy_Layers_def
    by (auto simp: decode_while_Suc split: option.splits)
  have finds:
    "find (\<lambda>l. LayerType W l = t) (layers p) = Some x \<longrightarrow>
       lazy_Layer n W h t p = Some (Some x, p)"
    "find (\<lambda>l. LayerType W l = t) (layers p) = None \<and> next p = None \<longrightarrow>
       lazy_Layer n W h t p = Some (None, p)"
    "find (\<lambda>l. LayerType W l = t) (layers p) = None \<and> next p = Some d \<longrightarrow>
       lazy_Layer (Suc n) W h t p =
         (case decodeNextLayer W h p of None \<Rightarrow> None | Some p' \<Rightarrow> lazy_Layer n W h t p')"
    "find (\<lambda>l. lc (LayerType W l)) (layers p) = Some x \<longrightarrow>
       lazy_LayerClass n W h lc p = Some (Some x, p)"
    "find (\<lambda>l. lc (LayerType W l)) (layers p) = None \<and> next p = None \<longrightarrow>
       lazy_LayerClass n W h lc p = Some (None, p)"
    "find (\<lambda>l. lc (LayerType W l)) (layers p) = None \<and> next p = Some d \<longrightarrow>
       lazy_LayerClass (Suc n) W h lc p =
         (case decodeNextLayer W h p of None \<Rightarrow> None | Some p' \<Rightarrow> lazy_LayerClass n W h lc p')"
    unfolding lazy_Layer_def lazy_LayerClass_def
    by (simp_all add: lazy_find_found lazy_find_drained lazy_find_Suc)
  show ?thesis
    using step roles loops finds by blast
qed

lemma lazy_step_examples:
  "len (pending_payload chain_world (new_lazyPacket three_bytes (Some 0))) = 3"
  "finish_decode chain_world
     (exec lazy_NextDecoder
        (Decode chain_world 0 chain_heap
           (pending_payload chain_world (new_lazyPacket three_bytes (Some 0))))
        (new_lazyPacket three_bytes (Some 0)\<lparr>next := None\<rparr>)) = Some chain_first_step"
  "lazy_LinkLayer 0 chain_world chain_heap chain_first_step = Some (Some layer_A, chain_first_step)"
  "len (pending_payload chain_world drained_example) = 0"
  by code_simp+

theorem lazy_decode_step_witness:
  "next (new_lazyPacket three_bytes (Some 0)) = Some 0 \<and>
   len (pending_payload chain_world (new_lazyPacket three_bytes (Some 0))) = 3 \<and>
   decodeNextLayer chain_world chain_heap (new_lazyPacket three_bytes (Some 0)) =
     Some chain_first_step \<and>
   lazy_LinkLayer 1 chain_world chain_heap (new_lazyPacket three_bytes (Some 0)) =
     Some (Some layer_A, chain_first_step) \<and>
   next drained_example = Some 1 \<and>
   len (pending_payload chain_world drained_example) = 0 \<and>
   decodeNextLayer chain_world chain_heap drained_example = Some (drained_example\<lparr>next := None\<rparr>) \<and>
   lazy_Layers 1 chain_world chain_heap drained_example =
     Some (layers drained_example, drained_example\<lparr>next := None\<rparr>)"
proof -
  have a: "next (new_lazyPacket three_bytes (Some 0)) = Some 0"
    "link (new_lazyPacket three_bytes (Some 0)) = None"
    by (simp_all add: new_lazyPacket_def new_packet_def packet.defs lazyPacket.defs)
  have b: "next drained_example = Some 1" "next (drained_example\<lparr>next := None\<rparr>) = None"
    "layers (drained_example\<lparr>next := None\<rparr>) = layers drained_example"
    by (simp_all add: drained_example_def)
  show ?thesis
    using lazy_decode_step [where p = "new_lazyPacket three_bytes (Some 0)" and d = 0
        and W = chain_world and h = chain_heap and n = 0]
      lazy_decode_step [where p = drained_example and d = 1
        and W = chain_world and h = chain_heap and n = 0]
      lazy_decode_step [where p = "drained_example\<lparr>next := None\<rparr>"
        and W = chain_world and h = chain_heap and n = 0]
      lazy_step_examples a b
    by simp
qed

section \<open>The eager engine at construction\<close>

lemma NewPacket_own_buffer:
  "NewPacket n W h dat dec options =
     (case own_buffer h dat options of
        (h1, dat1) \<Rightarrow>
          if Lazy options then Some (h1, LazyP (new_lazyPacket dat1 dec))
          else (case initialDecode n W h1 dec (new_packet dat1) of
                  None \<Rightarrow> None
                | Some p \<Rightarrow> Some (h1, EagerP p)))"
  by (simp add: NewPacket_def own_buffer_def)

lemma NewPacket_eager:
  "\<not> Lazy options \<Longrightarrow>
   NewPacket n W h dat dec options =
     (case initialDecode n W (fst (own_buffer h dat options)) dec
             (new_packet (snd (own_buffer h dat options))) of
        None \<Rightarrow> None
      | Some p \<Rightarrow> Some (fst (own_buffer h dat options), EagerP p))"
  by (cases "own_buffer h dat options") (simp add: NewPacket_own_buffer split: option.splits)

lemma NewPacket_lazy:
  "Lazy options \<Longrightarrow>
   NewPacket n W h dat dec options =
     Some (fst (own_buffer h dat options),
           LazyP (new_lazyPacket (snd (own_buffer h dat options)) dec))"
  by (cases "own_buffer h dat options") (simp add: NewPacket_own_buffer)

lemma exec_no_next: "no_next prog \<Longrightarrow> exec nd prog p = exec nd' prog p"
  by (induction prog arbitrary: p) simp_all

lemma eager_NextDecoder_call:
  "last_layer p = Some l \<Longrightarrow> len (LayerPayload W l) \<noteq> 0 \<Longrightarrow>
   eager_NextDecoder W call (Some d) p = call d (LayerPayload W l) p"
  by (simp add: eager_NextDecoder_def Let_def)

lemma eager_NextDecoder_empty:
  "last_layer p = Some l \<Longrightarrow> len (LayerPayload W l) = 0 \<Longrightarrow>
   eager_NextDecoder W call (Some d) p = (Ret None, p)"
  by (simp add: eager_NextDecoder_def Let_def)

text \<open>
  C4. With \<open>Lazy\<close> unset, \<^verbatim>\<open>NewPacket\<close> runs \<^verbatim>\<open>initialDecode\<close> on the packet's buffer
  before it returns: the first decoder is run on the whole buffer; \<^verbatim>\<open>NextDecoder\<close> runs
  the decoder it is given at once, on the payload of the last layer, and its result is
  that decoder's result; on an empty payload it returns success and runs nothing; a
  decoder that does not call \<^verbatim>\<open>NextDecoder\<close> ends the chain, whatever the decoders are.
  Every accessor of an eager packet returns a field, or a search of the layers, and
  leaves the packet as it is, with any fuel.
\<close>

theorem eager_decodes_at_construction:
  "(\<not> Lazy options \<longrightarrow>
      NewPacket n W h dat dec options =
        (case initialDecode n W (fst (own_buffer h dat options)) dec
                (new_packet (snd (own_buffer h dat options))) of
           None \<Rightarrow> None
         | Some p \<Rightarrow> Some (fst (own_buffer h dat options), EagerP p))) \<and>
   initialDecode (Suc n) W h (Some d) p =
     finish_decode W (exec (eager_NextDecoder W (eager_Decode n W h)) (Decode W d h (data p)) p) \<and>
   (last_layer p = Some l \<and> len (LayerPayload W l) \<noteq> 0 \<longrightarrow>
      eager_NextDecoder W (eager_Decode (Suc n) W h) (Some d) p =
        exec (eager_NextDecoder W (eager_Decode n W h)) (Decode W d h (LayerPayload W l)) p) \<and>
   (last_layer p = Some l \<and> len (LayerPayload W l) = 0 \<longrightarrow>
      eager_NextDecoder W call (Some d) p = (Ret None, p)) \<and>
   (no_next prog \<longrightarrow> exec (eager_NextDecoder W call) prog p = exec nd prog p) \<and>
   Packet_LinkLayer n W h (EagerP p) = Some (link p, EagerP p) \<and>
   Packet_NetworkLayer n W h (EagerP p) = Some (network p, EagerP p) \<and>
   Packet_TransportLayer n W h (EagerP p) = Some (transport p, EagerP p) \<and>
   Packet_ApplicationLayer n W h (EagerP p) = Some (application p, EagerP p) \<and>
   Packet_ErrorLayer n W h (EagerP p) = Some (failure p, EagerP p) \<and>
   Packet_Layers n W h (EagerP p) = Some (layers p, EagerP p) \<and>
   Packet_Layer n W h t (EagerP p) =
     Some (find (\<lambda>l. LayerType W l = t) (layers p), EagerP p) \<and>
   Packet_LayerClass n W h lc (EagerP p) =
     Some (find (\<lambda>l. lc (LayerType W l)) (layers p), EagerP p)"
proof -
  have accessors:
    "Packet_LinkLayer n W h (EagerP p) = Some (link p, EagerP p)"
    "Packet_NetworkLayer n W h (EagerP p) = Some (network p, EagerP p)"
    "Packet_TransportLayer n W h (EagerP p) = Some (transport p, EagerP p)"
    "Packet_ApplicationLayer n W h (EagerP p) = Some (application p, EagerP p)"
    "Packet_ErrorLayer n W h (EagerP p) = Some (failure p, EagerP p)"
    "Packet_Layers n W h (EagerP p) = Some (layers p, EagerP p)"
    "Packet_Layer n W h t (EagerP p) = Some (find (\<lambda>l. LayerType W l = t) (layers p), EagerP p)"
    "Packet_LayerClass n W h lc (EagerP p) =
       Some (find (\<lambda>l. lc (LayerType W l)) (layers p), EagerP p)"
    by (simp_all add: Packet_LinkLayer_def Packet_NetworkLayer_def Packet_TransportLayer_def
        Packet_ApplicationLayer_def Packet_ErrorLayer_def Packet_Layers_def Packet_Layer_def
        Packet_LayerClass_def lift_eager_def eager_LinkLayer_def eager_NetworkLayer_def
        eager_TransportLayer_def eager_ApplicationLayer_def eager_ErrorLayer_def
        eager_Layers_def eager_Layer_def eager_LayerClass_def)
  have chain:
    "initialDecode (Suc n) W h (Some d) p =
       finish_decode W (exec (eager_NextDecoder W (eager_Decode n W h)) (Decode W d h (data p)) p)"
    "last_layer p = Some l \<and> len (LayerPayload W l) \<noteq> 0 \<longrightarrow>
       eager_NextDecoder W (eager_Decode (Suc n) W h) (Some d) p =
         exec (eager_NextDecoder W (eager_Decode n W h)) (Decode W d h (LayerPayload W l)) p"
    "last_layer p = Some l \<and> len (LayerPayload W l) = 0 \<longrightarrow>
       eager_NextDecoder W call (Some d) p = (Ret None, p)"
    by (simp_all add: initialDecode_def eager_NextDecoder_call eager_NextDecoder_empty)
  show ?thesis
    using accessors chain NewPacket_eager [of options n W h dat dec]
      exec_no_next [of prog "eager_NextDecoder W call" p nd]
    by blast
qed

lemma eager_examples:
  "NewPacket 3 chain_world chain_heap three_bytes (Some 0) \<lparr>Lazy = False, NoCopy = True\<rparr> =
     Some (chain_heap, EagerP chain_decoded)"
  "own_buffer chain_heap three_bytes \<lparr>Lazy = False, NoCopy = True\<rparr> = (chain_heap, three_bytes)"
  "last_layer (packet.truncate chain_first_step) = Some layer_A"
  "len (LayerPayload chain_world layer_A) = 2"
  "exec (eager_NextDecoder chain_world (eager_Decode 1 chain_world chain_heap))
     (Decode chain_world 1 chain_heap (LayerPayload chain_world layer_A))
     (packet.truncate chain_first_step) = (Ret (Some ''short buffer''),
        chain_decoded\<lparr>layers := [layer_A, layer_B], last_layer := Some layer_B\<rparr>)"
  "no_next (Decode chain_world 2 chain_heap three_bytes)"
  by code_simp+

theorem eager_decodes_at_construction_witness:
  "\<not> Lazy \<lparr>Lazy = False, NoCopy = True\<rparr> \<and>
   initialDecode 3 chain_world chain_heap (Some 0) (new_packet three_bytes) = Some chain_decoded \<and>
   last_layer (packet.truncate chain_first_step) = Some layer_A \<and>
   len (LayerPayload chain_world layer_A) = 2 \<and>
   eager_NextDecoder chain_world (eager_Decode 2 chain_world chain_heap) (Some 1)
     (packet.truncate chain_first_step) =
     (Ret (Some ''short buffer''),
      chain_decoded\<lparr>layers := [layer_A, layer_B], last_layer := Some layer_B\<rparr>) \<and>
   no_next (Decode chain_world 2 chain_heap three_bytes) \<and>
   exec (eager_NextDecoder chain_world (eager_Decode 0 chain_world chain_heap))
     (Decode chain_world 2 chain_heap three_bytes) (new_packet three_bytes) =
     exec (eager_NextDecoder chain_world (eager_Decode 5 chain_world chain_heap))
       (Decode chain_world 2 chain_heap three_bytes) (new_packet three_bytes)"
  using eager_decodes_at_construction [where options = "\<lparr>Lazy = False, NoCopy = True\<rparr>"
      and n = 3 and W = chain_world and h = chain_heap and dat = three_bytes and dec = "Some 0"]
    eager_decodes_at_construction [where n = 1 and W = chain_world and h = chain_heap
      and p = "packet.truncate chain_first_step" and l = layer_A and d = 1]
    eager_decodes_at_construction [where W = chain_world
      and call = "eager_Decode 0 chain_world chain_heap"
      and nd = "eager_NextDecoder chain_world (eager_Decode 5 chain_world chain_heap)"
      and prog = "Decode chain_world 2 chain_heap three_bytes" and p = "new_packet three_bytes"]
    eager_examples
  by (simp add: numeral_2_eq_2 numeral_3_eq_3 split: option.splits)

section \<open>After a failure\<close>





lemma base_LazyP_next [simp]: "base (LazyP (p\<lparr>next := x\<rparr>)) = base (LazyP p)"
  by (simp add: base_def packet.truncate_def)





section \<open>The packet source\<close>

lemma Packet_CaptureInfo_set [simp]: "Packet_CaptureInfo (set_CaptureInfo ci pk) = ci"
  by (cases pk) (simp_all add: Packet_CaptureInfo_def set_CaptureInfo_def)



lemma advance_fields [simp]:
  "decoder (advance ps) = decoder ps" "DecodeOptions (advance ps) = DecodeOptions ps"
  "source (advance ps) = (source ps)\<lparr>pos := Suc (pos (source ps))\<rparr>"
  by (simp_all add: advance_def)

lemma decodes_advance [simp]: "decodes n W (advance ps) = decodes n W ps"
  by (simp add: decodes_def)







section \<open>Eager and lazy decoding compared\<close>

lemma exec_tail: "tail_calls prog \<Longrightarrow> exec nd prog p = end_with nd (run_calls prog p)"
proof (induction prog arbitrary: p)
  case (CallNextDecoder d k)
  then have k: "k = Return" by simp
  obtain out q where r: "nd d p = (out, q)" by (cases "nd d p")
  show ?case using k r by (cases out) simp_all
qed simp_all

lemma truncate_builder:
  "packet.truncate (AddLayer l p) = AddLayer l (packet.truncate p)"
  "packet.truncate (SetLinkLayer x p) = SetLinkLayer x (packet.truncate p)"
  "packet.truncate (SetNetworkLayer x p) = SetNetworkLayer x (packet.truncate p)"
  "packet.truncate (SetTransportLayer x p) = SetTransportLayer x (packet.truncate p)"
  "packet.truncate (SetApplicationLayer x p) = SetApplicationLayer x (packet.truncate p)"
  "packet.truncate (SetErrorLayer x p) = SetErrorLayer x (packet.truncate p)"
  by (simp_all add: packet.truncate_def builder_defs)

lemma run_calls_truncate:
  "run_calls prog (packet.truncate p) =
     (fst (run_calls prog p), packet.truncate (snd (run_calls prog p)))"
  by (induction prog arbitrary: p) (simp_all add: truncate_builder [symmetric])

lemma run_calls_next: "next (snd (run_calls prog p)) = next p"
  by (induction prog arbitrary: p) simp_all

lemma last_builder [simp]:
  "last_layer (AddLayer l p) = Some l" "last_layer (SetLinkLayer x p) = last_layer p"
  "last_layer (SetNetworkLayer x p) = last_layer p" "last_layer (SetTransportLayer x p) = last_layer p"
  "last_layer (SetApplicationLayer x p) = last_layer p" "last_layer (SetErrorLayer x p) = last_layer p"
  by (simp_all add: builder_defs)

lemma run_calls_last:
  "last_layer p \<noteq> None \<Longrightarrow> last_layer (snd (run_calls prog p)) \<noteq> None"
  by (induction prog arbitrary: p) simp_all

lemma run_calls_layer_first:
  "layer_first b prog \<Longrightarrow> run_calls prog p = (EndNext (Some d), q) \<Longrightarrow>
   (b \<longrightarrow> last_layer p \<noteq> None) \<Longrightarrow> last_layer q \<noteq> None"
proof (induction prog arbitrary: b p)
  case (CallAddLayer l k)
  from CallAddLayer.IH [of True "AddLayer l p"] CallAddLayer.prems show ?case by simp
qed auto

lemma pending_truncate [simp]:
  "pending_payload W (packet.truncate p) = pending_payload W p"
  by (simp add: pending_payload_def truncate_sel split: option.splits)

lemma truncate_next [simp]: "packet.truncate (p\<lparr>next := x\<rparr>) = packet.truncate p"
  by (simp add: packet.truncate_def)

lemma pending_next [simp]: "pending_payload W (p\<lparr>next := x\<rparr>) = pending_payload W p"
  by (simp add: pending_payload_def split: option.splits)

lemma truncate_recover:
  "packet.truncate (recoverDecodeError W r p) = recoverDecodeError W r (packet.truncate p)"
  by (simp add: recover_pending truncate_builder)

lemma next_recover [simp]: "next (recoverDecodeError W r p) = next p"
  by (simp add: recover_pending)

lemma finish_truncate:
  "finish_decode W (out, lq) = Some lq' \<Longrightarrow>
   finish_decode W (out, packet.truncate lq) = Some (packet.truncate lq') \<and> next lq' = next lq"
  by (cases "(W, (out, lq))" rule: finish_decode.cases) (auto simp: truncate_recover)

lemma drain_stop: "next p = None \<Longrightarrow> decode_while (\<lambda>q. True) n W h p = Some p"
  by (simp add: decode_while_stop)

lemma drain_step:
  "next p = Some d \<Longrightarrow> decodeNextLayer W h p = Some p' \<Longrightarrow>
   decode_while (\<lambda>q. True) (Suc n) W h p = decode_while (\<lambda>q. True) n W h p'"
  by (simp add: decode_while_Suc)

text \<open>One lazy step of a decoder in tail form, by the way the decoder ends.\<close>

lemma lazy_step_tail:
  assumes tail: "tail_calls (Decode W d h (pending_payload W lp))"
    and nx: "next lp = Some d" and ne: "len (pending_payload W lp) \<noteq> 0"
    and rc: "run_calls (Decode W d h (pending_payload W lp)) (lp\<lparr>next := None\<rparr>) = (e, lq0)"
  shows "decodeNextLayer W h lp = finish_decode W (end_with lazy_NextDecoder (e, lq0))"
    and "run_calls (Decode W d h (pending_payload W lp)) (packet.truncate lp) =
          (e, packet.truncate lq0)"
    and "next lq0 = None"
proof -
  show "decodeNextLayer W h lp = finish_decode W (end_with lazy_NextDecoder (e, lq0))"
    using nx ne rc by (simp add: decodeNextLayer_run exec_tail [OF tail])
  show "run_calls (Decode W d h (pending_payload W lp)) (packet.truncate lp) =
          (e, packet.truncate lq0)"
    using run_calls_truncate [of "Decode W d h (pending_payload W lp)" "lp\<lparr>next := None\<rparr>"] rc
    by simp
  show "next lq0 = None"
    using run_calls_next [of "Decode W d h (pending_payload W lp)" "lp\<lparr>next := None\<rparr>"] rc
    by simp
qed

lemma eager_step_tail:
  assumes tail: "tail_calls (Decode W d h s)"
    and rc: "run_calls (Decode W d h s) p = (e, q)"
  shows "eager_Decode (Suc n) W h d s p =
     end_with (eager_NextDecoder W (eager_Decode n W h)) (e, q)"
  using rc by (simp add: exec_tail [OF tail])

text \<open>A step that ends without a pending decoder ends the lazy decode.\<close>

lemma lazy_last_step:
  assumes step: "decodeNextLayer W h lp = finish_decode W (out, lq0)"
    and nx: "next lp = Some d" and nx0: "next lq0 = None" and fuel: "out \<noteq> OutOfFuel"
  shows "\<exists>lq. decodeNextLayer W h lp = Some lq \<and> next lq = None \<and>
      decode_while (\<lambda>q. True) (Suc m) W h lp = Some lq \<and>
      finish_decode W (out, packet.truncate lq0) = Some (packet.truncate lq)"
proof -
  obtain lq where lq: "finish_decode W (out, lq0) = Some lq"
    using finish_decode_Some [OF fuel] by blast
  from finish_truncate [OF lq] nx0
  have t: "finish_decode W (out, packet.truncate lq0) = Some (packet.truncate lq)"
    and n: "next lq = None" by simp_all
  have "decode_while (\<lambda>q. True) (Suc m) W h lp = Some lq"
    using drain_step [OF nx, of W h lq m] step lq n by (simp add: drain_stop)
  with step lq t n show ?thesis by simp
qed

lemma eager_to_lazy:
  assumes tail: "\<And>d h s. tail_calls (Decode W d h s)"
  shows "eager_Decode n W h d (pending_payload W lp) (packet.truncate lp) = (out, p') \<Longrightarrow>
    out \<noteq> OutOfFuel \<Longrightarrow> len (pending_payload W lp) \<noteq> 0 \<Longrightarrow>
    last_layer lp \<noteq> None \<or> layer_first False (Decode W d h (pending_payload W lp)) \<Longrightarrow>
    next lp = Some d \<Longrightarrow>
    \<exists>m lq. decode_while (\<lambda>q. True) m W h lp = Some lq \<and> next lq = None \<and>
      finish_decode W (out, p') = Some (packet.truncate lq)"
proof (induction n arbitrary: d lp out p')
  case 0
  then show ?case by simp
next
  case (Suc n)
  let ?prog = "Decode W d h (pending_payload W lp)"
  obtain e lq0 where rc: "run_calls ?prog (lp\<lparr>next := None\<rparr>) = (e, lq0)"
    by (cases "run_calls ?prog (lp\<lparr>next := None\<rparr>)")
  note lz = lazy_step_tail [OF tail Suc.prems(5) Suc.prems(3) rc]
  have eg: "(out, p') = end_with (eager_NextDecoder W (eager_Decode n W h)) (e, packet.truncate lq0)"
    using Suc.prems(1) eager_step_tail [OF tail lz(2)] by simp
  have final: "\<exists>m lq. decode_while (\<lambda>q. True) m W h lp = Some lq \<and> next lq = None \<and>
      finish_decode W (out, p') = Some (packet.truncate lq)"
    if "end_with lazy_NextDecoder (e, lq0) = (out, lq0)" and "p' = packet.truncate lq0"
  proof -
    from lz(1) that(1) have "decodeNextLayer W h lp = finish_decode W (out, lq0)" by simp
    from lazy_last_step [OF this Suc.prems(5) lz(3) Suc.prems(2), of 0] that(2)
    show ?thesis by blast
  qed
  show ?case
  proof (cases e)
    case (EndReturn r)
    with eg final show ?thesis by simp
  next
    case (EndPanic r)
    with eg final show ?thesis by simp
  next
    case (EndNext x)
    show ?thesis
    proof (cases x)
      case None
      with EndNext eg final show ?thesis
        by (simp add: eager_NextDecoder_def lazy_NextDecoder_def)
    next
      case (Some d')
      have "last_layer lq0 \<noteq> None"
      proof (cases "last_layer lp")
        case None
        with Suc.prems(4) have "layer_first False ?prog" by simp
        from run_calls_layer_first [OF this, of "lp\<lparr>next := None\<rparr>" d' lq0] rc EndNext Some
        show ?thesis by simp
      next
        case (Some l)
        then show ?thesis
          using run_calls_last [of "lp\<lparr>next := None\<rparr>" ?prog] rc by simp
      qed
      then obtain l where l: "last_layer lq0 = Some l" by auto
      let ?lq1 = "lq0\<lparr>next := Some d'\<rparr>"
      have pend: "pending_payload W lq0 = LayerPayload W l"
        using l by (simp add: pending_payload_def)
      have step: "decodeNextLayer W h lp = Some ?lq1"
        using lz(1) EndNext Some by (simp add: lazy_NextDecoder_def)
      show ?thesis
      proof (cases "len (LayerPayload W l) = 0")
        case True
        have o: "out = Ret None" "p' = packet.truncate lq0"
          using eg EndNext Some l True
          by (simp_all add: eager_NextDecoder_def truncate_sel)
        have "decodeNextLayer W h ?lq1 = Some (?lq1\<lparr>next := None\<rparr>)"
          using True pend by (simp add: decodeNextLayer_empty)
        then have "decode_while (\<lambda>q. True) (Suc 0) W h ?lq1 = Some (?lq1\<lparr>next := None\<rparr>)"
          using drain_step [of ?lq1 d' W h "?lq1\<lparr>next := None\<rparr>" 0] by (simp add: drain_stop)
        then have "decode_while (\<lambda>q. True) (Suc (Suc 0)) W h lp = Some (?lq1\<lparr>next := None\<rparr>)"
          using drain_step [OF Suc.prems(5) step, of "Suc 0"] by simp
        moreover have "finish_decode W (out, p') = Some (packet.truncate (?lq1\<lparr>next := None\<rparr>))"
          using o by simp
        ultimately show ?thesis by (intro exI [of _ "Suc (Suc 0)"] exI [of _ "?lq1\<lparr>next := None\<rparr>"]) simp
      next
        case False
        have "eager_Decode n W h d' (pending_payload W ?lq1) (packet.truncate ?lq1) = (out, p')"
          using eg EndNext Some l False pend
          by (simp add: eager_NextDecoder_def truncate_sel Let_def)
        from Suc.IH [OF this Suc.prems(2)] False pend l
        obtain m lq where m: "decode_while (\<lambda>q. True) m W h ?lq1 = Some lq" "next lq = None"
          "finish_decode W (out, p') = Some (packet.truncate lq)"
          by auto
        have "decode_while (\<lambda>q. True) (Suc m) W h lp = Some lq"
          using drain_step [OF Suc.prems(5) step, of m] m(1) by simp
        with m show ?thesis by blast
      qed
    qed
  qed
qed

lemma lazy_to_eager:
  assumes tail: "\<And>d h s. tail_calls (Decode W d h s)"
  shows "decode_while (\<lambda>q. True) m W h lp = Some lq \<Longrightarrow> next lp = Some d \<Longrightarrow>
    len (pending_payload W lp) \<noteq> 0 \<Longrightarrow>
    last_layer lp \<noteq> None \<or> layer_first False (Decode W d h (pending_payload W lp)) \<Longrightarrow>
    \<exists>n out p'. eager_Decode n W h d (pending_payload W lp) (packet.truncate lp) = (out, p') \<and>
      out \<noteq> OutOfFuel \<and> finish_decode W (out, p') = Some (packet.truncate lq) \<and>
      next lq = None"
proof (induction m arbitrary: d lp)
  case 0
  then show ?case by (simp add: decode_while_0)
next
  case (Suc m)
  let ?prog = "Decode W d h (pending_payload W lp)"
  obtain e lq0 where rc: "run_calls ?prog (lp\<lparr>next := None\<rparr>) = (e, lq0)"
    by (cases "run_calls ?prog (lp\<lparr>next := None\<rparr>)")
  note lz = lazy_step_tail [OF tail Suc.prems(2) Suc.prems(3) rc]
  have eg: "eager_Decode (Suc n) W h d (pending_payload W lp) (packet.truncate lp) =
      end_with (eager_NextDecoder W (eager_Decode n W h)) (e, packet.truncate lq0)" for n
    using eager_step_tail [OF tail lz(2)] by simp
  obtain lq1 where lq1: "decodeNextLayer W h lp = Some lq1"
    using decodeNextLayer_returns by blast
  have rest: "decode_while (\<lambda>q. True) m W h lq1 = Some lq"
    using drain_step [OF Suc.prems(2) lq1, of m] Suc.prems(1) by simp
  have final: ?case
    if l: "end_with lazy_NextDecoder (e, lq0) = (out, lq0)"
      and g: "end_with (eager_NextDecoder W (eager_Decode 0 W h)) (e, packet.truncate lq0) =
        (out, packet.truncate lq0)"
      and fuel: "out \<noteq> OutOfFuel" for out
  proof -
    from lz(1) l have "decodeNextLayer W h lp = finish_decode W (out, lq0)" by simp
    from lazy_last_step [OF this Suc.prems(2) lz(3) fuel, of m] Suc.prems(1)
    have "finish_decode W (out, packet.truncate lq0) = Some (packet.truncate lq)" "next lq = None"
      by auto
    moreover from eg [of 0] g
    have "eager_Decode (Suc 0) W h d (pending_payload W lp) (packet.truncate lp) =
        (out, packet.truncate lq0)" by (rule trans)
    ultimately show ?thesis using fuel by blast
  qed
  show ?case
  proof (cases e)
    case (EndReturn r)
    with final [of "Ret r"] show ?thesis by simp
  next
    case (EndPanic r)
    with final [of "Panicked r"] show ?thesis by simp
  next
    case (EndNext x)
    show ?thesis
    proof (cases x)
      case None
      with EndNext final [of "Ret (Some nilDecoderError)"] show ?thesis
        by (simp add: eager_NextDecoder_def lazy_NextDecoder_def)
    next
      case (Some d')
      have "last_layer lq0 \<noteq> None"
      proof (cases "last_layer lp")
        case None
        with Suc.prems(4) have "layer_first False ?prog" by simp
        from run_calls_layer_first [OF this, of "lp\<lparr>next := None\<rparr>" d' lq0] rc EndNext Some
        show ?thesis by simp
      next
        case (Some l)
        then show ?thesis
          using run_calls_last [of "lp\<lparr>next := None\<rparr>" ?prog] rc by simp
      qed
      then obtain l where l: "last_layer lq0 = Some l" by auto
      let ?lq1 = "lq0\<lparr>next := Some d'\<rparr>"
      have pend: "pending_payload W lq0 = LayerPayload W l"
        using l by (simp add: pending_payload_def)
      have step: "lq1 = ?lq1"
        using lz(1) lq1 EndNext Some by (simp add: lazy_NextDecoder_def)
      show ?thesis
      proof (cases "len (LayerPayload W l) = 0")
        case True
        have e1: "decodeNextLayer W h ?lq1 = Some (?lq1\<lparr>next := None\<rparr>)"
          using True pend by (simp add: decodeNextLayer_empty)
        have "lq = ?lq1\<lparr>next := None\<rparr>"
        proof (cases m)
          case 0
          with rest step show ?thesis by (simp add: decode_while_0)
        next
          case (Suc m')
          with rest step drain_step [of ?lq1 d' W h "?lq1\<lparr>next := None\<rparr>" m'] e1
          show ?thesis by (simp add: drain_stop)
        qed
        moreover have "end_with (eager_NextDecoder W (eager_Decode 0 W h)) (e, packet.truncate lq0) =
            (Ret None, packet.truncate lq0)"
          using EndNext Some l True by (simp add: eager_NextDecoder_def truncate_sel)
        with eg [of 0]
        have "eager_Decode (Suc 0) W h d (pending_payload W lp) (packet.truncate lp) =
            (Ret None, packet.truncate lq0)" by (rule trans)
        moreover have "finish_decode W (Ret None, packet.truncate lq0) =
            Some (packet.truncate (?lq1\<lparr>next := None\<rparr>))" by simp
        moreover have "next (?lq1\<lparr>next := None\<rparr>) = None" by simp
        ultimately show ?thesis by blast
      next
        case False
        from Suc.IH [of ?lq1 d'] rest step False pend l
        obtain n out p' where n:
          "eager_Decode n W h d' (pending_payload W ?lq1) (packet.truncate ?lq1) = (out, p')"
          "out \<noteq> OutOfFuel" "finish_decode W (out, p') = Some (packet.truncate lq)"
          "next lq = None"
          by auto
        have "end_with (eager_NextDecoder W (eager_Decode n W h)) (e, packet.truncate lq0) = (out, p')"
          using EndNext Some l False pend n(1)
          by (simp add: eager_NextDecoder_def truncate_sel Let_def)
        with eg [of n]
        have "eager_Decode (Suc n) W h d (pending_payload W lp) (packet.truncate lp) = (out, p')"
          by (rule trans)
        with n show ?thesis by blast
      qed
    qed
  qed
qed

lemma own_buffer_Lazy:
  "own_buffer h dat \<lparr>Lazy = a, NoCopy = nc\<rparr> = own_buffer h dat \<lparr>Lazy = b, NoCopy = nc\<rparr>"
  by (simp add: own_buffer_def)

lemma own_buffer_len: "len (snd (own_buffer h dat options)) = len dat"
  by (simp add: own_buffer_def make_bytes_def)

lemma new_lazyPacket_sel:
  "packet.truncate (new_lazyPacket s dec) = new_packet s" "next (new_lazyPacket s dec) = dec"
  "last_layer (new_lazyPacket s dec) = None" "pending_payload W (new_lazyPacket s dec) = s"
  "data (new_lazyPacket s dec) = s"
  by (simp_all add: new_lazyPacket_def new_packet_def packet.defs lazyPacket.defs
      pending_payload_def)

lemma drained_accessors:
  assumes "next lq = None"
  shows "Packet_LinkLayer j W h (LazyP lq) = Some (link lq, LazyP lq)"
    "Packet_NetworkLayer j W h (LazyP lq) = Some (network lq, LazyP lq)"
    "Packet_TransportLayer j W h (LazyP lq) = Some (transport lq, LazyP lq)"
    "Packet_ApplicationLayer j W h (LazyP lq) = Some (application lq, LazyP lq)"
    "Packet_ErrorLayer j W h (LazyP lq) = Some (failure lq, LazyP lq)"
    "Packet_Layers j W h (LazyP lq) = Some (layers lq, LazyP lq)"
  using assms
  by (simp_all add: Packet_LinkLayer_def Packet_NetworkLayer_def Packet_TransportLayer_def
      Packet_ApplicationLayer_def Packet_ErrorLayer_def Packet_Layers_def lift_lazy_def
      lazy_LinkLayer_def lazy_NetworkLayer_def lazy_TransportLayer_def
      lazy_ApplicationLayer_def lazy_ErrorLayer_def lazy_Layers_def decode_while_stop)

lemma finish_fuel: "finish_decode W (out, q) = Some p \<Longrightarrow> out \<noteq> OutOfFuel"
  by (cases out) auto

lemma eager_construction_drains:
  assumes tail: "\<forall>d h s. tail_calls (Decode W d h s)"
    and first: "\<forall>h s. layer_first False (Decode W d0 h s)"
    and nonempty: "len dat \<noteq> 0"
    and eager: "NewPacket n W h dat (Some d0) \<lparr>Lazy = False, NoCopy = nc\<rparr> = Some (h1, pe)"
  shows "\<exists>m pl0 pl.
      NewPacket n W h dat (Some d0) \<lparr>Lazy = True, NoCopy = nc\<rparr> = Some (h1, pl0) \<and>
      Packet_Layers m W h1 pl0 = Some (layers (base pe), pl) \<and> base pl = base pe \<and>
      Packet_LinkLayer j W h1 pl = Some (link (base pe), pl) \<and>
      Packet_NetworkLayer j W h1 pl = Some (network (base pe), pl) \<and>
      Packet_TransportLayer j W h1 pl = Some (transport (base pe), pl) \<and>
      Packet_ApplicationLayer j W h1 pl = Some (application (base pe), pl) \<and>
      Packet_ErrorLayer j W h1 pl = Some (failure (base pe), pl)"
proof -
  let ?ob = "own_buffer h dat \<lparr>Lazy = False, NoCopy = nc\<rparr>"
  let ?lp0 = "new_lazyPacket (snd ?ob) (Some d0)"
  from eager obtain p' where p': "initialDecode n W (fst ?ob) (Some d0) (new_packet (snd ?ob)) = Some p'"
    and h1: "h1 = fst ?ob" and pe: "pe = EagerP p'"
    by (auto simp: NewPacket_eager split: option.splits)
  obtain out q where r: "eager_Decode n W h1 d0 (snd ?ob) (new_packet (snd ?ob)) = (out, q)"
    by (cases "eager_Decode n W h1 d0 (snd ?ob) (new_packet (snd ?ob))")
  have fin: "finish_decode W (out, q) = Some p'"
    using p' r h1 by (simp add: initialDecode_def new_packet_def)
  have lazy: "NewPacket n W h dat (Some d0) \<lparr>Lazy = True, NoCopy = nc\<rparr> = Some (h1, LazyP ?lp0)"
    using h1 own_buffer_Lazy [of h dat True nc False] by (simp add: NewPacket_lazy)
  have "eager_Decode n W h1 d0 (pending_payload W ?lp0) (packet.truncate ?lp0) = (out, q)"
    using r by (simp add: new_lazyPacket_sel)
  from eager_to_lazy [OF _ this finish_fuel [OF fin]] tail first nonempty
  obtain m lq where m: "decode_while (\<lambda>q. True) m W h1 ?lp0 = Some lq" "next lq = None"
    "finish_decode W (out, q) = Some (packet.truncate lq)"
    by (auto simp: new_lazyPacket_sel own_buffer_len)
  have eq: "packet.truncate lq = p'" using m(3) fin by simp
  have b: "base pe = packet.truncate lq" using eq pe by (simp add: base_def)
  have f1: "Packet_Layers m W h1 (LazyP ?lp0) = Some (layers (base pe), LazyP lq)"
    using m(1) b by (simp add: Packet_Layers_def lazy_Layers_def lift_lazy_def truncate_sel)
  have f2: "base (LazyP lq) = base pe" using b by (simp add: base_def)
  note f3 = drained_accessors [OF m(2), of j W h1, folded truncate_sel [of lq], folded b]
  show ?thesis
    using lazy f1 f2 f3(1-5) by blast
qed

lemma lazy_drain_constructs:
  assumes tail: "\<forall>d h s. tail_calls (Decode W d h s)"
    and first: "\<forall>h s. layer_first False (Decode W d0 h s)"
    and nonempty: "len dat \<noteq> 0"
    and lazy: "NewPacket k W h dat (Some d0) \<lparr>Lazy = True, NoCopy = nc\<rparr> = Some (h1, pl0)"
    and drain: "Packet_Layers m W h1 pl0 = Some (ls, pl)"
  shows "\<exists>n pe.
      NewPacket n W h dat (Some d0) \<lparr>Lazy = False, NoCopy = nc\<rparr> = Some (h1, pe) \<and>
      base pe = base pl \<and> ls = layers (base pe)"
proof -
  let ?ob = "own_buffer h dat \<lparr>Lazy = False, NoCopy = nc\<rparr>"
  let ?lp0 = "new_lazyPacket (snd ?ob) (Some d0)"
  have l0: "h1 = fst ?ob" "pl0 = LazyP ?lp0"
    using lazy own_buffer_Lazy [of h dat True nc False] by (auto simp: NewPacket_lazy)
  from drain l0 obtain lq where lq: "decode_while (\<lambda>q. True) m W h1 ?lp0 = Some lq"
    and ls: "ls = layers lq" and pl: "pl = LazyP lq"
    by (auto simp: Packet_Layers_def lazy_Layers_def lift_lazy_def)
  from lazy_to_eager [OF _ lq, of d0] tail first nonempty
  obtain n out p' where n:
    "eager_Decode n W h1 d0 (snd ?ob) (new_packet (snd ?ob)) = (out, p')"
    "finish_decode W (out, p') = Some (packet.truncate lq)"
    by (auto simp: new_lazyPacket_sel own_buffer_len)
  have "initialDecode n W h1 (Some d0) (new_packet (snd ?ob)) = Some (packet.truncate lq)"
    using n by (simp add: initialDecode_def new_packet_def)
  then have "NewPacket n W h dat (Some d0) \<lparr>Lazy = False, NoCopy = nc\<rparr> =
      Some (h1, EagerP (packet.truncate lq))"
    using l0(1) by (simp add: NewPacket_eager)
  moreover have "base (EagerP (packet.truncate lq)) = base pl"
    using pl by (simp add: base_def)
  moreover have "ls = layers (base (EagerP (packet.truncate lq)))"
    using ls by (simp add: base_def truncate_sel)
  ultimately show ?thesis by blast
qed

text \<open>
  C2, amended. Let every decoder call \<^verbatim>\<open>NextDecoder\<close> only as its last action and return
  what that call returns, let the first decoder be not nil and add a layer before it
  asks for a next decoder, and let the input be not empty. Then, with the same input and
  the same \<open>NoCopy\<close>: when the eager construction returns, the lazy packet is drained by
  \<^verbatim>\<open>Layers()\<close> with some fuel and then holds the same layers, role pointers, error layer
  and other shared fields as the eager packet, and its role getters and
  \<^verbatim>\<open>ErrorLayer()\<close> return what the eager packet holds; and when \<^verbatim>\<open>Layers()\<close> returns on
  the lazy packet, the eager construction returns with some fuel, with the same fields.
\<close>

theorem eager_lazy_equivalent:
  assumes "\<forall>d h s. tail_calls (Decode W d h s)"
    and "\<forall>h s. layer_first False (Decode W d0 h s)"
    and "len dat \<noteq> 0"
  shows
    "(NewPacket n W h dat (Some d0) \<lparr>Lazy = False, NoCopy = nc\<rparr> = Some (h1, pe) \<longrightarrow>
        (\<exists>m pl0 pl.
           NewPacket n W h dat (Some d0) \<lparr>Lazy = True, NoCopy = nc\<rparr> = Some (h1, pl0) \<and>
           Packet_Layers m W h1 pl0 = Some (layers (base pe), pl) \<and> base pl = base pe \<and>
           Packet_LinkLayer j W h1 pl = Some (link (base pe), pl) \<and>
           Packet_NetworkLayer j W h1 pl = Some (network (base pe), pl) \<and>
           Packet_TransportLayer j W h1 pl = Some (transport (base pe), pl) \<and>
           Packet_ApplicationLayer j W h1 pl = Some (application (base pe), pl) \<and>
           Packet_ErrorLayer j W h1 pl = Some (failure (base pe), pl))) \<and>
     (NewPacket k W h dat (Some d0) \<lparr>Lazy = True, NoCopy = nc\<rparr> = Some (h2, ql0) \<and>
      Packet_Layers m W h2 ql0 = Some (ls, ql) \<longrightarrow>
        (\<exists>n' qe.
           NewPacket n' W h dat (Some d0) \<lparr>Lazy = False, NoCopy = nc\<rparr> = Some (h2, qe) \<and>
           base qe = base ql \<and> ls = layers (base qe)))"
  using eager_construction_drains [OF assms, of n h nc h1 pe j]
    lazy_drain_constructs [OF assms, of k h nc h2 ql0 m ls ql]
  by blast

lemma chain_world_tail:
  "\<forall>d h s. tail_calls (Decode chain_world d h s)"
  "\<forall>h s. layer_first False (Decode chain_world 0 h s)"
  "len three_bytes \<noteq> 0"
  by (simp_all add: chain_world_def chain_Decode_def three_bytes_def)

lemma chain_world_equivalent:
  "NewPacket 3 chain_world chain_heap three_bytes (Some 0) \<lparr>Lazy = False, NoCopy = True\<rparr> =
     Some (chain_heap, EagerP chain_decoded)"
  "NewPacket 0 chain_world chain_heap three_bytes (Some 0) \<lparr>Lazy = True, NoCopy = True\<rparr> =
     Some (chain_heap, LazyP (new_lazyPacket three_bytes (Some 0)))"
  "Packet_Layers 3 chain_world chain_heap (LazyP (new_lazyPacket three_bytes (Some 0))) =
     Some ([layer_A, layer_B, chain_failure],
           LazyP (packet.extend chain_decoded (lazyPacket.fields None)))"
  "base (LazyP (packet.extend chain_decoded (lazyPacket.fields None))) =
     base (EagerP chain_decoded)"
  by code_simp+

theorem eager_lazy_equivalent_witness:
  "NewPacket 3 chain_world chain_heap three_bytes (Some 0) \<lparr>Lazy = False, NoCopy = True\<rparr> =
     Some (chain_heap, EagerP chain_decoded) \<and>
   NewPacket 0 chain_world chain_heap three_bytes (Some 0) \<lparr>Lazy = True, NoCopy = True\<rparr> =
     Some (chain_heap, LazyP (new_lazyPacket three_bytes (Some 0))) \<and>
   Packet_Layers 3 chain_world chain_heap (LazyP (new_lazyPacket three_bytes (Some 0))) =
     Some ([layer_A, layer_B, chain_failure],
           LazyP (packet.extend chain_decoded (lazyPacket.fields None))) \<and>
   base (LazyP (packet.extend chain_decoded (lazyPacket.fields None))) =
     base (EagerP chain_decoded)"
  using eager_lazy_equivalent [OF chain_world_tail, where n = 3 and h = chain_heap
      and nc = True and ?h1.0 = chain_heap and pe = "EagerP chain_decoded"]
    chain_world_equivalent
  by simp

text \<open>
  C2, as stated, fails. On an empty input the eager engine still runs the first decoder,
  which fails here, and the lazy engine runs nothing: one failure layer against no
  layer. On three bytes, when decoder 0 adds layer A, asks for decoder 1 and fails
  afterwards, the eager engine has already run decoder 1, which added layer B, and the
  lazy engine never runs it.
\<close>

theorem eager_lazy_differ:
  "map_option (\<lambda>r. layers (base (snd r)))
     (NewPacket 1 chain_world [] nil_slice (Some 2) \<lparr>Lazy = False, NoCopy = True\<rparr>) =
     Some [DecodeFailure ''short buffer'' nil_slice] \<and>
   NewPacket 1 chain_world [] nil_slice (Some 2) \<lparr>Lazy = True, NoCopy = True\<rparr> =
     Some ([], LazyP (new_lazyPacket nil_slice (Some 2))) \<and>
   map_option (\<lambda>r. layers (base (snd r)))
     (Packet_Layers 1 chain_world [] (LazyP (new_lazyPacket nil_slice (Some 2)))) = Some [] \<and>
   map_option (\<lambda>r. layers (base (snd r)))
     (NewPacket 2 queue_fail_world chain_heap three_bytes (Some 0) \<lparr>Lazy = False, NoCopy = True\<rparr>) =
     Some [layer_A, layer_B, DecodeFailure ''short buffer'' \<lparr>arr = 0, off = 2, len = 1\<rparr>] \<and>
   map_option (\<lambda>r. layers (base (snd r)))
     (Packet_Layers 2 queue_fail_world chain_heap (LazyP (new_lazyPacket three_bytes (Some 0)))) =
     Some [layer_A, DecodeFailure ''short buffer'' \<lparr>arr = 0, off = 1, len = 2\<rparr>]"
  by code_simp

section \<open>Buffer ownership\<close>

lemma exec_invariant:
  assumes nd: "\<And>d q. I q \<Longrightarrow> I (snd (nd d q))"
    and add: "\<And>l q. I q \<Longrightarrow> P l \<Longrightarrow> I (AddLayer l q)"
    and set: "\<And>x q. I q \<Longrightarrow> I (SetLinkLayer x q)" "\<And>x q. I q \<Longrightarrow> I (SetNetworkLayer x q)"
      "\<And>x q. I q \<Longrightarrow> I (SetTransportLayer x q)" "\<And>x q. I q \<Longrightarrow> I (SetApplicationLayer x q)"
      "\<And>x q. I q \<Longrightarrow> I (SetErrorLayer x q)"
  shows "I p \<Longrightarrow> all_added P prog \<Longrightarrow> I (snd (exec nd prog p))"
proof (induction prog arbitrary: p)
  case (CallNextDecoder d k)
  obtain out q where r: "nd d p = (out, q)" by (cases "nd d p")
  have q: "I q" using nd [OF CallNextDecoder.prems(1), of d] r by simp
  show ?case
  proof (cases out)
    case (Ret e)
    have "I (snd (exec nd (k e) q))"
      using CallNextDecoder.IH [of "k e" q] q CallNextDecoder.prems(2) by simp
    then show ?thesis using r Ret by simp
  qed (use r q in auto)
qed (auto intro: add set)

lemma all_added_True [simp]: "all_added (\<lambda>l. True) prog"
  by (induction prog) simp_all

lemma data_builder [simp]:
  "data (AddLayer l p) = data p" "data (SetLinkLayer x p) = data p"
  "data (SetNetworkLayer x p) = data p" "data (SetTransportLayer x p) = data p"
  "data (SetApplicationLayer x p) = data p" "data (SetErrorLayer x p) = data p"
  by (simp_all add: builder_defs)

lemma data_exec:
  assumes "\<And>d q. data (snd (nd d q)) = data q"
  shows "data (snd (exec nd prog p)) = data p"
  using exec_invariant [where I = "\<lambda>q. data q = data p" and P = "\<lambda>l. True" and nd = nd
      and p = p and prog = prog] assms
  by simp

lemma data_eager_Decode: "data (snd (eager_Decode n W h d s p)) = data p"
proof (induction n arbitrary: d s p)
  case (Suc n)
  have "\<And>x q. data (snd (eager_NextDecoder W (eager_Decode n W h) x q)) = data q"
    by (auto simp: eager_NextDecoder_def Let_def Suc split: option.splits)
  then show ?case by (simp add: data_exec)
qed simp

lemma data_recover [simp]: "data (recoverDecodeError W r p) = data p"
  by (simp add: recoverDecodeError_def Let_def)

lemma data_finish: "finish_decode W (out, q) = Some q' \<Longrightarrow> data q' = data q"
  by (cases "(W, (out, q))" rule: finish_decode.cases)
     (auto simp: recoverDecodeError_def Let_def)

lemma data_initialDecode:
  assumes "initialDecode n W h dec p = Some p'"
  shows "data p' = data p"
proof (cases dec)
  case None
  with assms show ?thesis by (auto simp: initialDecode_def)
next
  case (Some d)
  obtain out q where r: "eager_Decode n W h d (data p) p = (out, q)"
    by (cases "eager_Decode n W h d (data p) p")
  have "data q = data p" using data_eager_Decode [of n W h d "data p" p] r by simp
  moreover have "data p' = data q" using assms Some r by (simp add: initialDecode_def data_finish)
  ultimately show ?thesis by simp
qed

lemma NewPacket_Data:
  assumes "NewPacket n W h dat dec options = Some (h1, pk)"
  shows "h1 = fst (own_buffer h dat options) \<and> Packet_Data pk = snd (own_buffer h dat options)"
proof (cases "Lazy options")
  case True
  with assms show ?thesis
    by (auto simp: NewPacket_lazy Packet_Data_def Data_def new_lazyPacket_def new_packet_def
        packet.defs)
next
  case False
  with assms show ?thesis
    by (auto simp: NewPacket_eager Packet_Data_def Data_def new_packet_def
        split: option.splits dest!: data_initialDecode)
qed

lemma read_slice_agree:
  "reads_only a s \<Longrightarrow> heap_at h2 a = heap_at h1 a \<Longrightarrow> read_slice h2 s = read_slice h1 s"
  by (auto simp: reads_only_def read_slice_def)

lemma sub_slice_reads_only: "sub_slice t s \<Longrightarrow> reads_only a s \<Longrightarrow> reads_only a t"
  by (auto simp: sub_slice_def reads_only_def)

lemma all_added_mono:
  "(\<And>l. P l \<Longrightarrow> Q l) \<Longrightarrow> all_added P prog \<Longrightarrow> all_added Q prog"
  by (induction prog) auto

lemma in_buffer_pending: "in_buffer W a p \<Longrightarrow> reads_only a (pending_payload W p)"
  by (auto simp: in_buffer_def pending_payload_def reads_only_def split: option.splits)

lemma in_buffer_builder:
  "in_buffer W a p \<Longrightarrow> reads_only a (LayerPayload W l) \<Longrightarrow> in_buffer W a (AddLayer l p)"
  "in_buffer W a p \<Longrightarrow> in_buffer W a (SetLinkLayer x p)"
  "in_buffer W a p \<Longrightarrow> in_buffer W a (SetNetworkLayer x p)"
  "in_buffer W a p \<Longrightarrow> in_buffer W a (SetTransportLayer x p)"
  "in_buffer W a p \<Longrightarrow> in_buffer W a (SetApplicationLayer x p)"
  "in_buffer W a p \<Longrightarrow> in_buffer W a (SetErrorLayer x p)"
  by (auto simp: in_buffer_def builder_defs)

lemma in_buffer_exec:
  assumes "\<And>d q. in_buffer W a q \<Longrightarrow> in_buffer W a (snd (nd d q))"
    and "in_buffer W a p" and "all_added (\<lambda>l. reads_only a (LayerPayload W l)) prog"
  shows "in_buffer W a (snd (exec nd prog p))"
  using exec_invariant [where I = "in_buffer W a" and P = "\<lambda>l. reads_only a (LayerPayload W l)"
      and nd = nd and p = p and prog = prog] assms
  by (simp add: in_buffer_builder)

lemma disciplined_prog:
  assumes "disciplined W" and "reads_only a s"
  shows "all_added (\<lambda>l. reads_only a (LayerPayload W l)) (Decode W d h s)"
proof -
  have "all_added (\<lambda>l. sub_slice (LayerPayload W l) s) (Decode W d h s)"
    using assms(1) unfolding disciplined_def by blast
  then show ?thesis
    by (rule all_added_mono [rotated]) (rule sub_slice_reads_only [OF _ assms(2)])
qed

lemma in_buffer_recover:
  assumes "disciplined W" and "in_buffer W a p"
  shows "in_buffer W a (recoverDecodeError W r p)"
proof -
  have "sub_slice (DecodeFailure_LayerPayload W r (pending_payload W p)) (pending_payload W p)"
    using assms(1) unfolding disciplined_def by blast
  then have "reads_only a (LayerPayload W (DecodeFailure r (pending_payload W p)))"
    using in_buffer_pending [OF assms(2)] by (simp add: LayerPayload_def sub_slice_reads_only)
  then show ?thesis
    using assms(2) by (simp add: recover_pending in_buffer_builder)
qed

lemma in_buffer_finish:
  "disciplined W \<Longrightarrow> in_buffer W a q \<Longrightarrow> finish_decode W (out, q) = Some q' \<Longrightarrow>
   in_buffer W a q'"
  by (cases "(W, (out, q))" rule: finish_decode.cases) (auto simp: in_buffer_recover)

lemma in_buffer_next [simp]: "in_buffer W a (p\<lparr>next := x\<rparr>) = in_buffer W a p"
  by (simp add: in_buffer_def)

lemma in_buffer_lazy_NextDecoder:
  "in_buffer W a q \<Longrightarrow> in_buffer W a (snd (lazy_NextDecoder d q))"
  by (cases d) (simp_all add: lazy_NextDecoder_def)

lemma in_buffer_decodeNextLayer:
  assumes W: "disciplined W" and p: "in_buffer W a p" and step: "decodeNextLayer W h p = Some p'"
  shows "in_buffer W a p'"
proof (cases "next p")
  case None
  with step p show ?thesis by (simp add: decodeNextLayer_idle)
next
  case (Some d)
  show ?thesis
  proof (cases "len (pending_payload W p) = 0")
    case True
    with step Some p show ?thesis by (auto simp: decodeNextLayer_empty)
  next
    case False
    let ?prog = "Decode W d h (pending_payload W p)"
    obtain out q where r: "exec lazy_NextDecoder ?prog (p\<lparr>next := None\<rparr>) = (out, q)"
      by (cases "exec lazy_NextDecoder ?prog (p\<lparr>next := None\<rparr>)")
    have "in_buffer W a q"
      using in_buffer_exec [of W a lazy_NextDecoder "p\<lparr>next := None\<rparr>" ?prog]
        in_buffer_lazy_NextDecoder disciplined_prog [OF W in_buffer_pending [OF p]] p r
      by simp
    moreover have "finish_decode W (out, q) = Some p'"
      using step Some False r by (simp add: decodeNextLayer_run)
    ultimately show ?thesis using W by (blast intro: in_buffer_finish)
  qed
qed

lemma decodeNextLayer_agree:
  assumes W: "disciplined W" and p: "in_buffer W a p" and h: "heap_at h2 a = heap_at h1 a"
  shows "decodeNextLayer W h2 p = decodeNextLayer W h1 p"
proof (cases "next p")
  case None
  then show ?thesis by (simp add: decodeNextLayer_idle)
next
  case (Some d)
  have "read_slice h2 (pending_payload W p) = read_slice h1 (pending_payload W p)"
    using read_slice_agree [OF in_buffer_pending [OF p] h] .
  then have "Decode W d h2 (pending_payload W p) = Decode W d h1 (pending_payload W p)"
    using W unfolding disciplined_def by blast
  then show ?thesis
    using Some
    by (cases "len (pending_payload W p) = 0")
       (simp_all add: decodeNextLayer_empty decodeNextLayer_run)
qed

lemma decode_while_agree:
  assumes W: "disciplined W" and h: "heap_at h2 a = heap_at h1 a"
  shows "in_buffer W a p \<Longrightarrow> decode_while unsat n W h2 p = decode_while unsat n W h1 p"
proof (induction n arbitrary: p)
  case 0
  show ?case
    by (cases "unsat p \<and> next p \<noteq> None") (auto simp: decode_while_stop decode_while_0)
next
  case (Suc n)
  show ?case
  proof (cases "unsat p \<and> next p \<noteq> None")
    case False
    then show ?thesis by (auto simp: decode_while_stop)
  next
    case True
    then obtain d where d: "unsat p" "next p = Some d" by auto
    obtain q where q: "decodeNextLayer W h1 p = Some q" using decodeNextLayer_returns by blast
    have q2: "decodeNextLayer W h2 p = Some q"
      using decodeNextLayer_agree [OF W Suc.prems h] q by simp
    have "in_buffer W a q" using in_buffer_decodeNextLayer [OF W Suc.prems q] .
    then have "decode_while unsat n W h2 q = decode_while unsat n W h1 q" by (rule Suc.IH)
    then show ?thesis using d q q2 by (simp add: decode_while_Suc)
  qed
qed

lemma in_buffer_decode_while:
  assumes W: "disciplined W"
  shows "in_buffer W a p \<Longrightarrow> decode_while unsat n W h p = Some p' \<Longrightarrow> in_buffer W a p'"
proof (induction n arbitrary: p)
  case 0
  then show ?case
    by (cases "unsat p \<and> next p \<noteq> None") (auto simp: decode_while_stop decode_while_0)
next
  case (Suc n)
  show ?case
  proof (cases "unsat p \<and> next p \<noteq> None")
    case False
    with Suc.prems show ?thesis by (auto simp: decode_while_stop)
  next
    case True
    then obtain d where d: "unsat p" "next p = Some d" by auto
    obtain q where q: "decodeNextLayer W h p = Some q" using decodeNextLayer_returns by blast
    have "in_buffer W a q" using in_buffer_decodeNextLayer [OF W Suc.prems(1) q] .
    moreover have "decode_while unsat n W h q = Some p'"
      using Suc.prems(2) d q by (simp add: decode_while_Suc)
    ultimately show ?thesis by (rule Suc.IH)
  qed
qed

lemma lazy_find_loop_agree:
  assumes W: "disciplined W" and h: "heap_at h2 a = heap_at h1 a"
  shows "in_buffer W a p \<Longrightarrow>
    lazy_find_loop want n W h2 k p = lazy_find_loop want n W h1 k p"
proof (induction n arbitrary: p k)
  case 0
  show ?case by (cases "next p") (simp_all add: lazy_find_loop_stop lazy_find_loop_0)
next
  case (Suc n)
  show ?case
  proof (cases "next p")
    case None
    then show ?thesis by (simp add: lazy_find_loop_stop)
  next
    case (Some d)
    obtain q where q: "decodeNextLayer W h1 p = Some q" using decodeNextLayer_returns by blast
    have q2: "decodeNextLayer W h2 p = Some q"
      using decodeNextLayer_agree [OF W Suc.prems h] q by simp
    have "in_buffer W a q" using in_buffer_decodeNextLayer [OF W Suc.prems q] .
    then have "lazy_find_loop want n W h2 (length (layers q)) q =
        lazy_find_loop want n W h1 (length (layers q)) q" by (rule Suc.IH)
    then show ?thesis using Some q q2 by (simp add: lazy_find_loop_Suc split: option.splits)
  qed
qed

lemma lazy_find_agree:
  "disciplined W \<Longrightarrow> heap_at h2 a = heap_at h1 a \<Longrightarrow> in_buffer W a p \<Longrightarrow>
   lazy_find want n W h2 p = lazy_find want n W h1 p"
  by (simp add: lazy_find_def lazy_find_loop_agree [of W h2 a h1] split: option.splits)

lemma in_buffer_eager_Decode:
  assumes W: "disciplined W"
  shows "in_buffer W a p \<Longrightarrow> reads_only a s \<Longrightarrow> in_buffer W a (snd (eager_Decode n W h d s p))"
proof (induction n arbitrary: d s p)
  case 0
  then show ?case by simp
next
  case (Suc n)
  have nd: "in_buffer W a (snd (eager_NextDecoder W (eager_Decode n W h) x q))"
    if q: "in_buffer W a q" for x q
  proof (cases x)
    case None
    with q show ?thesis by (simp add: eager_NextDecoder_def)
  next
    case (Some d')
    show ?thesis
    proof (cases "last_layer q")
      case None
      with Some q show ?thesis by (simp add: eager_NextDecoder_def)
    next
      case L: (Some l)
      have "reads_only a (LayerPayload W l)" using q L by (simp add: in_buffer_def)
      from Suc.IH [OF q this] Some L q show ?thesis
        by (simp add: eager_NextDecoder_def Let_def)
    qed
  qed
  show ?case
    using in_buffer_exec [of W a "eager_NextDecoder W (eager_Decode n W h)" p "Decode W d h s"]
      nd Suc.prems disciplined_prog [OF W Suc.prems(2)]
    by simp
qed

lemma in_buffer_new: "in_buffer W (arr s) (new_packet s)"
  by (simp add: in_buffer_def new_packet_def)

lemma in_buffer_initialDecode:
  assumes W: "disciplined W" and r: "initialDecode n W h dec (new_packet s) = Some p'"
  shows "in_buffer W (arr s) p'"
proof (cases dec)
  case None
  with r show ?thesis
    by (auto simp: initialDecode_def in_buffer_recover [OF W in_buffer_new])
next
  case (Some d)
  obtain out q where e: "eager_Decode n W h d s (new_packet s) = (out, q)"
    by (cases "eager_Decode n W h d s (new_packet s)")
  have "in_buffer W (arr s) q"
    using in_buffer_eager_Decode [OF W in_buffer_new, of s s n h d] e
    by (simp add: reads_only_def)
  moreover have "finish_decode W (out, q) = Some p'"
    using r Some e by (simp add: initialDecode_def new_packet_def)
  ultimately show ?thesis using W by (blast intro: in_buffer_finish)
qed

lemma in_buffer_truncate [simp]: "in_buffer W a (packet.truncate p) = in_buffer W a p"
  by (simp add: in_buffer_def truncate_sel)

lemma in_buffer_NewPacket:
  assumes W: "disciplined W" and r: "NewPacket n W h dat dec options = Some (h1, pk)"
  shows "in_buffer W (arr (Packet_Data pk)) (base pk)"
proof (cases "Lazy options")
  case True
  with r show ?thesis
    by (auto simp: NewPacket_lazy Packet_Data_def Data_def base_def new_lazyPacket_sel in_buffer_new)
next
  case False
  with r obtain p' where p': "pk = EagerP p'"
    "initialDecode n W h1 dec (new_packet (snd (own_buffer h dat options))) = Some p'"
    by (auto simp: NewPacket_eager split: option.splits)
  from in_buffer_initialDecode [OF W p'(2)] data_initialDecode [OF p'(2)] p'(1)
  show ?thesis by (simp add: Packet_Data_def Data_def base_def new_packet_def)
qed

lemma own_buffer_copy:
  assumes "\<not> NoCopy options" and "valid_slice h dat"
  shows "arr (snd (own_buffer h dat options)) = length h"
    and "read_slice (fst (own_buffer h dat options)) (snd (own_buffer h dat options)) =
          read_slice h dat"
  using assms
  by (auto simp: own_buffer_def make_bytes_def copy_def read_slice_def heap_at_def write_at_def
      valid_slice_def Let_def nth_append min_def)

lemma own_buffer_alias: "NoCopy options \<Longrightarrow> own_buffer h dat options = (h, dat)"
  by (simp add: own_buffer_def)

lemma slice_store_read:
  assumes "slice_store h dat i b = Some h3"
  shows "read_slice h3 dat = (read_slice h dat)[i := b]"
    and "x \<noteq> arr dat \<Longrightarrow> heap_at h3 x = heap_at h x"
  using assms
  by (auto simp: slice_store_def read_slice_def heap_at_def take_update_swap drop_update_swap
      split: if_splits)

lemma accessors_agree:
  assumes W: "disciplined W" and h: "heap_at h2 a = heap_at h1 a" and p: "in_buffer W a (base pk)"
  shows "Packet_Layers m W h2 pk = Packet_Layers m W h1 pk \<and>
    Packet_LinkLayer m W h2 pk = Packet_LinkLayer m W h1 pk \<and>
    Packet_NetworkLayer m W h2 pk = Packet_NetworkLayer m W h1 pk \<and>
    Packet_TransportLayer m W h2 pk = Packet_TransportLayer m W h1 pk \<and>
    Packet_ApplicationLayer m W h2 pk = Packet_ApplicationLayer m W h1 pk \<and>
    Packet_ErrorLayer m W h2 pk = Packet_ErrorLayer m W h1 pk \<and>
    Packet_Layer m W h2 t pk = Packet_Layer m W h1 t pk \<and>
    Packet_LayerClass m W h2 lc pk = Packet_LayerClass m W h1 lc pk"
proof (cases pk)
  case (EagerP q)
  then show ?thesis
    by (simp add: Packet_LinkLayer_def Packet_NetworkLayer_def Packet_TransportLayer_def
        Packet_ApplicationLayer_def Packet_ErrorLayer_def Packet_Layers_def Packet_Layer_def
        Packet_LayerClass_def)
next
  case (LazyP q)
  with p have q: "in_buffer W a q" by (simp add: base_def)
  note loops = decode_while_agree [OF W h q] lazy_find_agree [OF W h q]
  from LazyP show ?thesis
    by (simp add: Packet_LinkLayer_def Packet_NetworkLayer_def Packet_TransportLayer_def
        Packet_ApplicationLayer_def Packet_ErrorLayer_def Packet_Layers_def Packet_Layer_def
        Packet_LayerClass_def lazy_LinkLayer_def lazy_NetworkLayer_def lazy_TransportLayer_def
        lazy_ApplicationLayer_def lazy_ErrorLayer_def lazy_Layers_def lazy_Layer_def
        lazy_LayerClass_def loops)
qed

lemma in_buffer_Packet_Layers:
  assumes W: "disciplined W" and p: "in_buffer W a (base pk)"
    and r: "Packet_Layers m W h pk = Some (ls, pk')"
  shows "\<forall>l \<in> set ls. reads_only a (LayerPayload W l)"
proof (cases pk)
  case (EagerP q)
  with r p show ?thesis
    by (auto simp: Packet_Layers_def eager_Layers_def lift_eager_def base_def in_buffer_def)
next
  case (LazyP q)
  with r obtain q' where q': "decode_while (\<lambda>q. True) m W h q = Some q'" "ls = layers q'"
    by (auto simp: Packet_Layers_def lazy_Layers_def lift_lazy_def)
  from LazyP p have "in_buffer W a q" by (simp add: base_def)
  from in_buffer_decode_while [OF W this q'(1)] q'(2) show ?thesis
    by (simp add: in_buffer_def)
qed

text \<open>
  C7. Let the caller's slice be valid, let the decoders and \<^verbatim>\<open>DecodeFailure\<close> keep the
  discipline above (\<open>disciplined\<close>), and let \<open>h2\<close> be any store that differs from the
  store after construction only in the caller's array. Without \<open>NoCopy\<close> the packet's
  buffer holds the bytes the caller passed, before and after the caller's writes; the
  payloads of its layers read the same bytes in both stores; every accessor returns the
  same result and packet in both stores; and the payloads of the layers that
  \<^verbatim>\<open>Layers()\<close> returns read the same bytes in both. With \<open>NoCopy\<close> the store is
  unchanged by the construction, the packet's buffer is the caller's slice, and a write
  of byte \<open>b\<close> at index \<open>i\<close> through the caller's slice is read back through
  \<^verbatim>\<open>Data()\<close>.
\<close>

theorem buffer_copied_unless_NoCopy:
  assumes dat: "valid_slice h dat" and W: "disciplined W"
    and new: "NewPacket n W h dat dec options = Some (h1, pk)"
    and h2: "\<forall>x. x \<noteq> arr dat \<longrightarrow> heap_at h2 x = heap_at h1 x"
  shows
    "(\<not> NoCopy options \<longrightarrow>
        read_slice h1 (Packet_Data pk) = read_slice h dat \<and>
        read_slice h2 (Packet_Data pk) = read_slice h dat \<and>
        (\<forall>l \<in> set (layers (base pk)).
           read_slice h2 (LayerPayload W l) = read_slice h1 (LayerPayload W l)) \<and>
        Packet_Layers m W h2 pk = Packet_Layers m W h1 pk \<and>
        Packet_LinkLayer m W h2 pk = Packet_LinkLayer m W h1 pk \<and>
        Packet_NetworkLayer m W h2 pk = Packet_NetworkLayer m W h1 pk \<and>
        Packet_TransportLayer m W h2 pk = Packet_TransportLayer m W h1 pk \<and>
        Packet_ApplicationLayer m W h2 pk = Packet_ApplicationLayer m W h1 pk \<and>
        Packet_ErrorLayer m W h2 pk = Packet_ErrorLayer m W h1 pk \<and>
        Packet_Layer m W h2 t pk = Packet_Layer m W h1 t pk \<and>
        Packet_LayerClass m W h2 lc pk = Packet_LayerClass m W h1 lc pk \<and>
        (\<forall>ls pk'. Packet_Layers m W h2 pk = Some (ls, pk') \<longrightarrow>
           (\<forall>l \<in> set ls. read_slice h2 (LayerPayload W l) = read_slice h1 (LayerPayload W l)))) \<and>
     (NoCopy options \<longrightarrow>
        h1 = h \<and> Packet_Data pk = dat \<and>
        (\<forall>i b h3. slice_store h1 dat i b = Some h3 \<longrightarrow>
           read_slice h3 (Packet_Data pk) = (read_slice h dat)[i := b] \<and>
           (\<forall>x. x \<noteq> arr dat \<longrightarrow> heap_at h3 x = heap_at h1 x)))"
proof (cases "NoCopy options")
  case True
  from NewPacket_Data [OF new] True have "h1 = h" "Packet_Data pk = dat"
    by (simp_all add: own_buffer_alias)
  with True show ?thesis
    using slice_store_read by blast
next
  case False
  let ?a = "arr (Packet_Data pk)"
  from NewPacket_Data [OF new] own_buffer_copy [OF False dat]
  have a: "?a = length h" and c: "read_slice h1 (Packet_Data pk) = read_slice h dat"
    by simp_all
  have "?a \<noteq> arr dat" using a dat by (simp add: valid_slice_def)
  with h2 have agree: "heap_at h2 ?a = heap_at h1 ?a" by simp
  note inv = in_buffer_NewPacket [OF W new]
  have d: "read_slice h2 (Packet_Data pk) = read_slice h1 (Packet_Data pk)"
    by (rule read_slice_agree [OF _ agree]) (simp add: reads_only_def)
  have l: "\<forall>l \<in> set (layers (base pk)).
      read_slice h2 (LayerPayload W l) = read_slice h1 (LayerPayload W l)"
    using inv by (auto simp: in_buffer_def intro: read_slice_agree [OF _ agree])
  have later: "\<forall>ls pk'. Packet_Layers m W h2 pk = Some (ls, pk') \<longrightarrow>
      (\<forall>l \<in> set ls. read_slice h2 (LayerPayload W l) = read_slice h1 (LayerPayload W l))"
    using in_buffer_Packet_Layers [OF W inv] read_slice_agree [OF _ agree] by blast
  show ?thesis
    using False c d l later accessors_agree [OF W agree inv, of m t lc] by simp
qed

lemma sub_slice_tail: "sub_slice (tail_slice s) s"
  by (auto simp: sub_slice_def tail_slice_def)

lemma chain_world_disciplined: "disciplined chain_world"
proof -
  have "sub_slice nil_slice s" for s
    by (simp add: sub_slice_def nil_slice_def)
  then show ?thesis
    by (simp add: disciplined_def chain_world_def chain_Decode_def LayerPayload_def sub_slice_tail)
qed

lemma buffer_examples:
  "valid_slice chain_heap three_bytes"
  "NewPacket 3 chain_world chain_heap three_bytes (Some 0) \<lparr>Lazy = False, NoCopy = False\<rparr> =
     Some ([[1, 2, 3], [1, 2, 3]], EagerP copied_decoded)"
  "slice_store [[1, 2, 3], [1, 2, 3]] three_bytes 0 9 = Some [[9, 2, 3], [1, 2, 3]]"
  "read_slice chain_heap three_bytes = [1, 2, 3]"
  "NewPacket 3 chain_world chain_heap three_bytes (Some 0) \<lparr>Lazy = False, NoCopy = True\<rparr> =
     Some (chain_heap, EagerP chain_decoded)"
  "slice_store chain_heap three_bytes 0 9 = Some [[9, 2, 3]]"
  "read_slice [[9, 2, 3]] three_bytes = [9, 2, 3]"
  by code_simp+

theorem buffer_copied_unless_NoCopy_witness:
  "valid_slice chain_heap three_bytes \<and> disciplined chain_world \<and>
   NewPacket 3 chain_world chain_heap three_bytes (Some 0) \<lparr>Lazy = False, NoCopy = False\<rparr> =
     Some ([[1, 2, 3], [1, 2, 3]], EagerP copied_decoded) \<and>
   slice_store [[1, 2, 3], [1, 2, 3]] three_bytes 0 9 = Some [[9, 2, 3], [1, 2, 3]] \<and>
   read_slice [[9, 2, 3], [1, 2, 3]] (Packet_Data (EagerP copied_decoded)) = [1, 2, 3] \<and>
   NewPacket 3 chain_world chain_heap three_bytes (Some 0) \<lparr>Lazy = False, NoCopy = True\<rparr> =
     Some (chain_heap, EagerP chain_decoded) \<and>
   slice_store chain_heap three_bytes 0 9 = Some [[9, 2, 3]] \<and>
   read_slice [[9, 2, 3]] (Packet_Data (EagerP chain_decoded)) = [9, 2, 3]"
proof -
  have m: "\<forall>x. x \<noteq> arr three_bytes \<longrightarrow>
      heap_at [[9, 2, 3], [1, 2, 3]] x = heap_at [[1, 2, 3], [1, 2, 3]] x"
    using slice_store_read(2) [OF buffer_examples(3)] by blast
  have k: "\<forall>x. x \<noteq> arr three_bytes \<longrightarrow> heap_at chain_heap x = heap_at chain_heap x"
    by simp
  show ?thesis
    using buffer_copied_unless_NoCopy [OF buffer_examples(1) chain_world_disciplined
        buffer_examples(2) m, where m = 0 and t = 0 and lc = "\<lambda>t. True"]
      buffer_copied_unless_NoCopy [OF buffer_examples(1) chain_world_disciplined
        buffer_examples(5) k, where m = 0 and t = 0 and lc = "\<lambda>t. True"]
      buffer_examples chain_world_disciplined
    by simp
qed

end
